theory Spec2Isabelle
  imports Main "HOL-Library.Sublist" "HOL-Library.Word"
begin

section \<open>Python strings\<close>

text \<open>
  A Python \<open>str\<close> is a sequence of code points: a list of natural numbers here, so
  \<open>length\<close> is Python's \<open>len\<close>. \<open>ustr\<close> reads a literal of ASCII characters as such a list.
  \<open>isspace\<close> is \<open>str.isspace\<close> on one character: the white space that \<open>str.rstrip\<close>
  removes. \<open>str.lower\<close> follows the interpreter's Unicode tables and looks at the
  neighbours of some characters; it is a parameter of the model (see \<open>env\<close> below).
\<close>

type_synonym ustring = "nat list"

definition ustr :: "string \<Rightarrow> ustring" where
  "ustr s = map of_char s"

definition isspace :: "nat \<Rightarrow> bool" where
  "isspace n =
     ((9 \<le> n \<and> n \<le> 13) \<or> (28 \<le> n \<and> n \<le> 32) \<or> n = 133 \<or> n = 160 \<or> n = 0x1680 \<or>
      (0x2000 \<le> n \<and> n \<le> 0x200A) \<or> n = 0x2028 \<or> n = 0x2029 \<or> n = 0x202F \<or>
      n = 0x205F \<or> n = 0x3000)"

text \<open>\<open>s.rstrip()\<close>: every trailing white-space character is removed.\<close>

definition rstrip :: "ustring \<Rightarrow> ustring" where
  "rstrip s = rev (dropWhile isspace (rev s))"

text \<open>\<open>t in s\<close> on strings: \<open>t\<close> occurs in \<open>s\<close> as a contiguous block.\<close>

fun py_in :: "ustring \<Rightarrow> ustring \<Rightarrow> bool" where
  "py_in t [] = (t = [])"
| "py_in t (c # s) = (prefix t (c # s) \<or> py_in t s)"

definition endswith :: "ustring \<Rightarrow> ustring \<Rightarrow> bool" where
  "endswith s suf = (length suf \<le> length s \<and> drop (length s - length suf) s = suf)"

text \<open>\<open>str(n)\<close> for an integer: decimal digits, with a minus sign below zero.\<close>

fun str_nat :: "nat \<Rightarrow> ustring" where
  "str_nat n = (if n < 10 then [48 + n]
                else str_nat (n div 10) @ [48 + n mod 10])"

declare str_nat.simps [simp del]

definition str_int :: "int \<Rightarrow> ustring" where
  "str_int i = (if i < 0 then (ustr ''-'') @ str_nat (nat (- i)) else str_nat (nat i))"

text \<open>
  \<open>os.path.splitext(p)[1]\<close> on a POSIX system: the part of \<open>p\<close> from the last dot on, when
  that dot lies in the last path component and is preceded there by a character that is
  not a dot; the empty string otherwise. \<open>rfind\<close> is \<open>str.rfind\<close> for a single character,
  with \<open>None\<close> for Python's \<open>-1\<close>.
\<close>

fun rfind :: "ustring \<Rightarrow> nat \<Rightarrow> nat option" where
  "rfind [] c = None"
| "rfind (x # xs) c =
     (case rfind xs c of
        Some i \<Rightarrow> Some (Suc i)
      | None \<Rightarrow> if x = c then Some 0 else None)"

definition splitext_ext :: "ustring \<Rightarrow> ustring" where
  "splitext_ext p =
     (let filenameIndex = (case rfind p 47 of None \<Rightarrow> 0 | Some i \<Rightarrow> Suc i) in
      case rfind p 46 of
        None \<Rightarrow> []
      | Some dotIndex \<Rightarrow>
          if filenameIndex \<le> dotIndex \<and>
             list_ex (\<lambda>c. c \<noteq> 46) (take (dotIndex - filenameIndex) (drop filenameIndex p))
          then drop dotIndex p else [])"

section \<open>Data\<close>

text \<open>
  A match is the dictionary that \<open>search_file\<close> and \<open>search_json\<close> append: the keys
  \<open>line_num\<close>, \<open>line\<close>, \<open>file_path\<close>, and \<open>json_path\<close> for a structural match only.
\<close>

record match_record =
  line_num :: int
  line :: ustring
  file_path :: ustring
  json_path :: "ustring option"

text \<open>
  A value returned by \<open>json.load\<close>. Keys of an object are strings, and an object is
  the list of its items in iteration order. The code reads a number, boolean or
  \<open>None\<close> only through \<open>str\<close>; a float is carried as that representation.
\<close>

datatype atom = PNone | PBool bool | PInt int | PFloat ustring

datatype json = JDict "(ustring \<times> json) list" | JList "json list" | JStr ustring | JAtom atom

fun py_str :: "atom \<Rightarrow> ustring" where
  "py_str PNone = (ustr ''None'')"
| "py_str (PBool b) = (if b then (ustr ''True'') else (ustr ''False''))"
| "py_str (PInt i) = str_int i"
| "py_str (PFloat r) = r"

text \<open>The fields of a \<open>FileSearcher\<close> object (the lock and the start time are left out).\<close>

record FileSearcher =
  search_term :: ustring
  directory :: ustring
  exclude_patterns :: "ustring list"
  max_workers :: int
  file_extensions :: "ustring list"
  case_sensitive :: bool
  results :: "ustring \<rightharpoonup> match_record list"
  files_processed :: int
  matches_found :: int

definition default_extensions :: "ustring list" where
  "default_extensions =
     [ustr ''.txt'', ustr ''.json'', ustr ''.sql'', ustr ''.py'', ustr ''.md'', ustr ''.csv'',
      ustr ''.log'', ustr ''.xml'', ustr ''.html'', ustr ''.js'', ustr ''.css'']"

text \<open>
  \<open>FileSearcher.__init__\<close>. An argument whose default is \<open>None\<close> is an option;
  \<open>x or d\<close> takes \<open>d\<close> for \<open>None\<close> and for the empty list.
\<close>

definition or_default :: "'a list option \<Rightarrow> 'a list \<Rightarrow> 'a list" where
  "or_default x d = (case x of None \<Rightarrow> d | Some xs \<Rightarrow> if xs = [] then d else xs)"

definition FileSearcher_init ::
  "ustring \<Rightarrow> ustring \<Rightarrow> ustring list option \<Rightarrow> int \<Rightarrow> ustring list option \<Rightarrow> bool \<Rightarrow> FileSearcher" where
  "FileSearcher_init term dir excl workers exts cs =
     \<lparr> search_term = term,
       directory = dir,
       exclude_patterns = or_default excl [],
       max_workers = max 1 workers,
       file_extensions = or_default exts default_extensions,
       case_sensitive = cs,
       results = Map.empty,
       files_processed = 0,
       matches_found = 0 \<rparr>"

text \<open>Line 143 of \<open>search_directory\<close>: the size given to the thread pool.\<close>

definition effective_workers :: "FileSearcher \<Rightarrow> int \<Rightarrow> int" where
  "effective_workers self total_files = max 1 (min (max_workers self) total_files)"

section \<open>The world outside the program\<close>

text \<open>
  An exception is carried as its message, \<open>str(e)\<close>. What the program asks of the
  string library, the regular-expression library, the file system and the JSON parser is a
  parameter:
  \<^item> \<open>str_lower s\<close> is \<open>s.lower()\<close>;
  \<^item> \<open>re_search pattern path\<close> is the truth value of \<open>re.search(pattern, path)\<close>, or the
    exception it raises (a pattern that does not compile);
  \<^item> \<open>read_binary path\<close> is the content that \<open>open(path, 'rb')\<close> gives \<open>read\<close>, or the
    exception of the \<open>open\<close> or the \<open>read\<close>;
  \<^item> \<open>read_text path\<close> is what the text-mode \<open>open\<close> and the iteration over the file
    do: the \<open>open\<close> raises, or the iterator delivers lines and then either ends or
    raises;
  \<^item> \<open>load_json path\<close> is what the second \<open>open\<close> and \<open>json.load\<close> do;
  \<^item> \<open>walk dir\<close> is the list \<open>all_files\<close> that the loop over \<open>os.walk\<close> builds.
\<close>

type_synonym exn = ustring

datatype text_read = OpenFailed exn | Lines "ustring list" "exn option"

datatype json_read = Loaded json | JSONDecodeError | LoadFailed exn

record env =
  str_lower :: "ustring \<Rightarrow> ustring"
  re_search :: "ustring \<Rightarrow> ustring \<Rightarrow> exn + bool"
  read_binary :: "ustring \<Rightarrow> exn + 8 word list"
  read_text :: "ustring \<Rightarrow> text_read"
  load_json :: "ustring \<Rightarrow> json_read"
  walk :: "ustring \<Rightarrow> ustring list"

text \<open>
  What a call does to the outside, in order: files opened and lines printed. The
  banner and progress lines of \<open>search_directory\<close> are not recorded.
\<close>

datatype event = OpenBinary ustring | OpenText ustring | Printed ustring

section \<open>File classifier\<close>

text \<open>
  \<open>any(re.search(pattern, file_path) for pattern in self.exclude_patterns)\<close>: the
  patterns are tried in order, up to the first that matches or raises.
\<close>

fun any_search :: "env \<Rightarrow> ustring list \<Rightarrow> ustring \<Rightarrow> exn + bool" where
  "any_search E [] fp = Inr False"
| "any_search E (pattern # rest) fp =
     (case re_search E pattern fp of
        Inl e \<Rightarrow> Inl e
      | Inr True \<Rightarrow> Inr True
      | Inr False \<Rightarrow> any_search E rest fp)"

definition is_excluded :: "env \<Rightarrow> FileSearcher \<Rightarrow> ustring \<Rightarrow> exn + bool" where
  "is_excluded E self fp = any_search E (exclude_patterns self) fp"

definition is_binary_file :: "env \<Rightarrow> ustring \<Rightarrow> bool" where
  "is_binary_file E fp =
     (case read_binary E fp of
        Inl e \<Rightarrow> True
      | Inr content \<Rightarrow> 0 \<in> set (take 1024 content))"

text \<open>
  \<open>is_searchable_file\<close>, with the events of the call. \<open>or\<close> does not evaluate its
  right operand when the left one is true: an excluded path is not opened.
\<close>

definition is_searchable_file :: "env \<Rightarrow> FileSearcher \<Rightarrow> ustring \<Rightarrow> (exn + bool) \<times> event list" where
  "is_searchable_file E self fp =
     (case is_excluded E self fp of
        Inl e \<Rightarrow> (Inl e, [])
      | Inr True \<Rightarrow> (Inr False, [])
      | Inr False \<Rightarrow>
          if is_binary_file E fp then (Inr False, [OpenBinary fp])
          else let ext = str_lower E (splitext_ext fp)
               in (Inr (file_extensions self = [] \<or> ext \<in> set (file_extensions self)),
                   [OpenBinary fp]))"

section \<open>Scanners\<close>

text \<open>
  The test that the source writes out five times, for a line, a key and a string value:
  \<open>(self.case_sensitive and self.search_term in x) or
    (not self.case_sensitive and self.search_term.lower() in x.lower())\<close>.
\<close>

definition term_in :: "env \<Rightarrow> FileSearcher \<Rightarrow> ustring \<Rightarrow> bool" where
  "term_in E self x =
     ((case_sensitive self \<and> py_in (search_term self) x) \<or>
      (\<not> case_sensitive self \<and> py_in (str_lower E (search_term self)) (str_lower E x)))"

definition json_match :: "ustring \<Rightarrow> ustring \<Rightarrow> ustring \<Rightarrow> match_record" where
  "json_match fp current_path shown =
     \<lparr> line_num = 0, line = current_path @ (ustr '': '') @ shown, file_path = fp,
       json_path = Some current_path \<rparr>"

text \<open>
  \<open>search_json\<close>. The two loops are functions of their own: \<open>search_items\<close> over
  \<open>data.items()\<close> and \<open>search_elems\<close> over \<open>enumerate(data)\<close>, with the index of the
  next element; \<open>search_value\<close> is the \<open>if\<close>/\<open>elif\<close> chain on a value, which the
  source writes out in both loops. A string value that fails the configured test reaches the last
  \<open>elif\<close>, as any value that is not a dict or a list does. Python's recursion limit
  is not modelled: the walk returns for every value.
\<close>

function search_json :: "env \<Rightarrow> FileSearcher \<Rightarrow> json \<Rightarrow> ustring \<Rightarrow> ustring \<Rightarrow> match_record list"
  and search_items :: "env \<Rightarrow> FileSearcher \<Rightarrow> (ustring \<times> json) list \<Rightarrow> ustring \<Rightarrow> ustring \<Rightarrow> match_record list"
  and search_value :: "env \<Rightarrow> FileSearcher \<Rightarrow> json \<Rightarrow> ustring \<Rightarrow> ustring \<Rightarrow> match_record list"
  and search_elems :: "env \<Rightarrow> FileSearcher \<Rightarrow> nat \<Rightarrow> json list \<Rightarrow> ustring \<Rightarrow> ustring \<Rightarrow> match_record list"
where
  "search_json E self (JDict items) fp path = search_items E self items fp path"
| "search_json E self (JList elems) fp path = search_elems E self 0 elems fp path"
| "search_json E self (JStr s) fp path = []"
| "search_json E self (JAtom a) fp path = []"
| "search_items E self [] fp path = []"
| "search_items E self ((k, v) # rest) fp path =
     (let current_path = path @ (ustr ''.'') @ k
      in (if term_in E self k then [json_match fp current_path k] else [])
         @ search_value E self v fp current_path
         @ search_items E self rest fp path)"
| "search_value E self (JDict items) fp current_path =
     search_json E self (JDict items) fp current_path"
| "search_value E self (JList elems) fp current_path =
     search_json E self (JList elems) fp current_path"
| "search_value E self (JStr s) fp current_path =
     (if term_in E self s then [json_match fp current_path s]
      else if py_in (search_term self) s then [json_match fp current_path s]
      else [])"
| "search_value E self (JAtom a) fp current_path =
     (if py_in (search_term self) (py_str a) then [json_match fp current_path (py_str a)]
      else [])"
| "search_elems E self i [] fp path = []"
| "search_elems E self i (item # rest) fp path =
     (let current_path = path @ (ustr ''['') @ str_nat i @ (ustr '']'')
      in search_value E self item fp current_path
         @ search_elems E self (Suc i) rest fp path)"
  by pat_completeness auto
termination
  by (relation "measure (\<lambda>x. case x of
        Inl (Inl (E, self, d, fp, path)) \<Rightarrow> 2 * size d
      | Inl (Inr (E, self, items, fp, path)) \<Rightarrow> 2 * size_list (size_prod (\<lambda>_. 0) size) items + 1
      | Inr (Inl (E, self, v, fp, path)) \<Rightarrow> 2 * size v + 1
      | Inr (Inr (E, self, i, elems, fp, path)) \<Rightarrow> 2 * size_list size elems + 1)") auto

text \<open>The loop over \<open>enumerate(f, 1)\<close> in \<open>search_file\<close>, from line number \<open>n\<close> on.\<close>

fun scan_lines :: "env \<Rightarrow> FileSearcher \<Rightarrow> ustring \<Rightarrow> int \<Rightarrow> ustring list \<Rightarrow> match_record list" where
  "scan_lines E self fp n [] = []"
| "scan_lines E self fp n (l # ls) =
     (if term_in E self l
      then [\<lparr> line_num = n, line = rstrip l, file_path = fp, json_path = None \<rparr>]
      else [])
     @ scan_lines E self fp (n + 1) ls"

definition Fore_RED :: ustring where
  "Fore_RED = [0x1B] @ (ustr ''[31m'')"

definition error_line :: "ustring \<Rightarrow> exn \<Rightarrow> ustring" where
  "error_line fp e = Fore_RED @ (ustr ''Error processing '') @ fp @ (ustr '': '') @ e"

text \<open>
  \<open>search_file\<close>: the matches it returns and the events of the call. \<open>matches\<close> is bound
  before the \<open>try\<close> and returned after it, so the handler returns whatever was
  appended before the exception.
\<close>

definition search_file :: "env \<Rightarrow> FileSearcher \<Rightarrow> ustring \<Rightarrow> match_record list \<times> event list" where
  "search_file E self fp =
     (case read_text E fp of
        OpenFailed e \<Rightarrow> ([], [OpenText fp, Printed (error_line fp e)])
      | Lines ls (Some e) \<Rightarrow>
          (scan_lines E self fp 1 ls, [OpenText fp, Printed (error_line fp e)])
      | Lines ls None \<Rightarrow>
          (let matches = scan_lines E self fp 1 ls in
           if endswith (str_lower E fp) (ustr ''.json'') then
             (case load_json E fp of
                Loaded json_data \<Rightarrow>
                  (matches @ search_json E self json_data fp (ustr ''$''), [OpenText fp, OpenText fp])
              | JSONDecodeError \<Rightarrow> (matches, [OpenText fp, OpenText fp])
              | LoadFailed e \<Rightarrow>
                  (matches, [OpenText fp, OpenText fp, Printed (error_line fp e)]))
           else (matches, [OpenText fp])))"

section \<open>File processor\<close>

text \<open>The body of the first \<open>with self.lock\<close> block of \<open>process_file\<close>.\<close>

definition merge_matches :: "FileSearcher \<Rightarrow> ustring \<Rightarrow> match_record list \<Rightarrow> FileSearcher" where
  "merge_matches self fp matches =
     self\<lparr> results := (results self)(fp \<mapsto> matches),
           matches_found := matches_found self + int (length matches) \<rparr>"

text \<open>The body of the second \<open>with self.lock\<close> block.\<close>

definition count_file :: "FileSearcher \<Rightarrow> FileSearcher" where
  "count_file self = self\<lparr> files_processed := files_processed self + 1 \<rparr>"

text \<open>
  \<open>process_file\<close> run by one thread with no other thread in between: the object
  after the call, or the exception that leaves the call, and the events.
\<close>

definition process_file :: "env \<Rightarrow> FileSearcher \<Rightarrow> ustring \<Rightarrow> (exn + FileSearcher) \<times> event list" where
  "process_file E self fp =
     (case is_searchable_file E self fp of
        (Inl e, ev) \<Rightarrow> (Inl e, ev)
      | (Inr False, ev) \<Rightarrow> (Inr self, ev)
      | (Inr True, ev) \<Rightarrow>
          (let (matches, ev') = search_file E self fp;
               self1 = (if matches \<noteq> [] then merge_matches self fp matches else self)
           in (Inr (count_file self1), ev @ ev')))"

section \<open>Search coordinator\<close>

text \<open>
  Several threads run \<open>process_file\<close> on one object. A call is cut at the points
  where it takes the lock: a task is \<open>Pending\<close> before the call, \<open>Scanned matches\<close> when
  \<open>search_file\<close> has returned, \<open>Merged\<close> after the \<open>if matches\<close> statement with its
  locked block, \<open>Finished\<close> after the return, and \<open>Raised e\<close> when an exception left the
  call (the future keeps it; nothing asks the future for its result). The first piece
  reads the configuration and the files only.
\<close>

datatype task = Pending | Scanned "match_record list" | Merged | Finished | Raised exn

fun process_file_step ::
  "env \<Rightarrow> ustring \<Rightarrow> task \<Rightarrow> FileSearcher \<Rightarrow> task \<times> FileSearcher \<times> event list" where
  "process_file_step E fp Pending self =
     (case is_searchable_file E self fp of
        (Inl e, ev) \<Rightarrow> (Raised e, self, ev)
      | (Inr False, ev) \<Rightarrow> (Finished, self, ev)
      | (Inr True, ev) \<Rightarrow>
          (let (matches, ev') = search_file E self fp
           in (Scanned matches, self, ev @ ev')))"
| "process_file_step E fp (Scanned matches) self =
     (Merged, (if matches \<noteq> [] then merge_matches self fp matches else self), [])"
| "process_file_step E fp Merged self = (Finished, count_file self, [])"
| "process_file_step E fp Finished self = (Finished, self, [])"
| "process_file_step E fp (Raised e) self = (Raised e, self, [])"

fun running :: "task \<Rightarrow> bool" where
  "running (Scanned matches) = True"
| "running Merged = True"
| "running t = False"

fun finished :: "task \<Rightarrow> bool" where
  "finished Finished = True"
| "finished (Raised e) = True"
| "finished t = False"

text \<open>
  The executor with its submitted calls: the shared object, one task for each entry of
  \<open>all_files\<close>, and the events so far. \<open>step_pool\<close> lets the task at index \<open>i\<close> run its
  next piece; a pending task starts only while fewer than \<open>workers\<close> tasks are running.
  A schedule is the list of the indices that run, in order: every interleaving of the
  threads is a schedule. The first piece of a call writes nothing that another call
  reads, so running it in one step loses no behaviour of the shared object.
\<close>

record pool =
  searcher :: FileSearcher
  tasks :: "task list"
  trace :: "event list"

definition step_pool :: "env \<Rightarrow> nat \<Rightarrow> ustring list \<Rightarrow> nat \<Rightarrow> pool \<Rightarrow> pool" where
  "step_pool E workers all_files i P =
     (if i < length (tasks P) \<and> i < length all_files then
        (if tasks P ! i = Pending \<and> workers \<le> length (filter running (tasks P)) then P
         else (case process_file_step E (all_files ! i) (tasks P ! i) (searcher P) of
                 (t, self, ev) \<Rightarrow>
                   \<lparr> searcher = self, tasks = (tasks P)[i := t], trace = trace P @ ev \<rparr>))
      else P)"

definition run_pool :: "env \<Rightarrow> nat \<Rightarrow> ustring list \<Rightarrow> nat list \<Rightarrow> pool \<Rightarrow> pool" where
  "run_pool E workers all_files schedule P = fold (step_pool E workers all_files) schedule P"

definition submit_all :: "FileSearcher \<Rightarrow> ustring list \<Rightarrow> pool" where
  "submit_all self all_files =
     \<lparr> searcher = self, tasks = replicate (length all_files) Pending, trace = [] \<rparr>"

definition all_done :: "pool \<Rightarrow> bool" where
  "all_done P = list_all finished (tasks P)"

text \<open>
  \<open>search_directory\<close> under a schedule. The \<open>with\<close> block returns when every submitted
  call is over, so a schedule that leaves a task unfinished is no run of the program:
  it gives \<open>None\<close>.
\<close>

definition search_directory :: "env \<Rightarrow> nat list \<Rightarrow> FileSearcher \<Rightarrow> pool option" where
  "search_directory E schedule self =
     (let all_files = walk E (directory self);
          total_files = length all_files
      in if total_files = 0 then Some (submit_all self [])
         else (let P = run_pool E (nat (effective_workers self (int total_files))) all_files
                         schedule (submit_all self all_files)
               in if all_done P then Some P else None))"


section \<open>An example directory\<close>

text \<open>
  A world with one directory \<open>d\<close> of four files, for evaluating the definitions:
  \<open>a.txt\<close> has three lines, the second with the term and two trailing blanks;
  \<open>b.json\<close> holds the document \<open>{"a": {"b": "findme"}}\<close> on one line;
  \<open>data.bin\<close> is text with the term in it; reading \<open>e.log\<close> fails after its first
  line. \<open>z.txt\<close>, outside the directory, has a zero byte. Exclusion patterns are plain
  words here, so \<open>re.search\<close> is the substring test. \<open>example_lower\<close> is \<open>str.lower\<close> on
  text of ASCII characters, the Latin-1 letters from U+00C0 on and the plain Greek
  letters: a capital letter goes to its small letter, and a capital sigma goes to the
  final small sigma when a letter stands just before it and none just after it, to the
  small sigma otherwise. (Python skips characters such as a full stop when it looks for
  those neighbours; no example has one next to a sigma.)
\<close>

definition cased :: "nat \<Rightarrow> bool" where
  "cased n =
     ((65 \<le> n \<and> n \<le> 90) \<or> (97 \<le> n \<and> n \<le> 122) \<or>
      (192 \<le> n \<and> n \<le> 255 \<and> n \<noteq> 215 \<and> n \<noteq> 247) \<or>
      (0x391 \<le> n \<and> n \<le> 0x3A9 \<and> n \<noteq> 0x3A2) \<or> (0x3B1 \<le> n \<and> n \<le> 0x3C9))"

definition lower_letter :: "nat \<Rightarrow> nat" where
  "lower_letter n =
     (if (65 \<le> n \<and> n \<le> 90) \<or> (192 \<le> n \<and> n \<le> 222 \<and> n \<noteq> 215) \<or>
         (0x391 \<le> n \<and> n \<le> 0x3A9 \<and> n \<noteq> 0x3A2)
      then n + 32 else n)"

fun lower_after :: "bool \<Rightarrow> ustring \<Rightarrow> ustring" where
  "lower_after letter_before [] = []"
| "lower_after letter_before (c # rest) =
     (if c = 0x3A3 \<and> letter_before \<and> \<not> (case rest of [] \<Rightarrow> False | c' # _ \<Rightarrow> cased c')
      then 0x3C2 else lower_letter c)
     # lower_after (cased c) rest"

definition example_lower :: "ustring \<Rightarrow> ustring" where
  "example_lower s = lower_after False s"

definition example_json_line :: ustring where
  "example_json_line =
     (ustr ''{'') @ [0x22] @ (ustr ''a'') @ [0x22] @ (ustr '': {'') @ [0x22] @ (ustr ''b'') @ [0x22]
     @ (ustr '': '') @ [0x22] @ (ustr ''findme'') @ [0x22] @ (ustr ''}}'')"

definition example_env :: env where
  "example_env =
     \<lparr> str_lower = example_lower,
       re_search = (\<lambda>pattern path. Inr (py_in pattern path)),
       read_binary = (\<lambda>fp.
          if fp \<in> {(ustr ''d/a.txt''), (ustr ''d/b.json''), (ustr ''d/data.bin''), (ustr ''d/e.log'')}
          then Inr [0x66, 0x69, 0x6E, 0x64]
          else if fp = (ustr ''d/z.txt'') then Inr [0x50, 0x4B, 0x00, 0x03]
          else Inl (ustr ''No such file or directory'')),
       read_text = (\<lambda>fp.
          if fp = (ustr ''d/a.txt'')
          then Lines [(ustr ''alpha\<newline>''), (ustr ''a findme  \<newline>''), (ustr ''omega\<newline>'')] None
          else if fp = (ustr ''d/b.json'') then Lines [example_json_line] None
          else if fp = (ustr ''d/data.bin'') then Lines [(ustr ''findme\<newline>'')] None
          else if fp = (ustr ''d/e.log'')
          then Lines [(ustr ''findme first\<newline>'')] (Some (ustr ''Input/output error''))
          else OpenFailed (ustr ''No such file or directory'')),
       load_json = (\<lambda>fp.
          if fp = (ustr ''d/b.json'') then Loaded (JDict [((ustr ''a''), JDict [((ustr ''b''), JStr (ustr ''findme''))])])
          else JSONDecodeError),
       walk = (\<lambda>dir.
          if dir = (ustr ''d'') then [(ustr ''d/a.txt''), (ustr ''d/b.json''), (ustr ''d/data.bin''), (ustr ''d/e.log'')]
          else []) \<rparr>"

definition example_searcher :: "bool \<Rightarrow> FileSearcher" where
  "example_searcher cs = FileSearcher_init (ustr ''findme'') (ustr ''d'') None 2 None cs"

section \<open>Notions used in the statements\<close>

text \<open>The paths opened for a content scan, in an event list.\<close>

fun scanned_paths :: "event list \<Rightarrow> ustring list" where
  "scanned_paths [] = []"
| "scanned_paths (OpenText fp # evs) = fp # scanned_paths evs"
| "scanned_paths (ev # evs) = scanned_paths evs"

text \<open>
  A path passes classification when \<open>is_searchable_file\<close> returns \<open>True\<close>; its batch is
  the list that \<open>search_file\<close> returns for it.
\<close>

definition searchable :: "env \<Rightarrow> FileSearcher \<Rightarrow> ustring \<Rightarrow> bool" where
  "searchable E self fp = (fst (is_searchable_file E self fp) = Inr True)"

definition batch :: "env \<Rightarrow> FileSearcher \<Rightarrow> ustring \<Rightarrow> match_record list" where
  "batch E self fp = fst (search_file E self fp)"

section \<open>Invariant of the pool\<close>

text \<open>
  Two objects have the same configuration when they agree on the fields that
  \<open>__init__\<close> sets from its arguments. A task is consistent with its path when a scanned
  task holds the batch of a path that passed classification, a merged task belongs to
  such a path, and a raised task to a path that did not pass. \<open>pool_inv\<close> ties the shared
  object to the tasks: each counter is its initial value plus what the tasks have added,
  \<open>results\<close> holds the batches merged so far, and only paths that passed classification
  were opened for scanning. \<open>served n k\<close> says that the first \<open>k\<close> of \<open>n\<close> tasks are over
  and the others have not started. \<open>pool_after\<close> is the pool after a schedule, from the
  submission on; \<open>example_midway\<close> is the example pool when the first call has left its
  first locked block. \<open>batch_size\<close> is the length of the list stored under a path, zero
  when there is none.
\<close>

definition same_config :: "FileSearcher \<Rightarrow> FileSearcher \<Rightarrow> bool" where
  "same_config s t =
     (search_term s = search_term t \<and> directory s = directory t \<and>
      exclude_patterns s = exclude_patterns t \<and> max_workers s = max_workers t \<and>
      file_extensions s = file_extensions t \<and> case_sensitive s = case_sensitive t)"

fun task_ok :: "env \<Rightarrow> FileSearcher \<Rightarrow> ustring \<Rightarrow> task \<Rightarrow> bool" where
  "task_ok E self fp (Scanned matches) = (searchable E self fp \<and> matches = batch E self fp)"
| "task_ok E self fp Merged = searchable E self fp"
| "task_ok E self fp (Raised e) = (\<not> searchable E self fp)"
| "task_ok E self fp t = True"

fun merged :: "task \<Rightarrow> bool" where
  "merged Merged = True"
| "merged Finished = True"
| "merged t = False"

definition processed_by :: "env \<Rightarrow> FileSearcher \<Rightarrow> ustring \<Rightarrow> task \<Rightarrow> int" where
  "processed_by E self fp t = (if t = Finished \<and> searchable E self fp then 1 else 0)"

definition found_by :: "env \<Rightarrow> FileSearcher \<Rightarrow> ustring \<Rightarrow> task \<Rightarrow> int" where
  "found_by E self fp t =
     (if merged t \<and> searchable E self fp then int (length (batch E self fp)) else 0)"

definition holds_batch :: "env \<Rightarrow> FileSearcher \<Rightarrow> ustring \<Rightarrow> task \<Rightarrow> bool" where
  "holds_batch E self fp t = (merged t \<and> searchable E self fp \<and> batch E self fp \<noteq> [])"

definition pool_inv :: "env \<Rightarrow> FileSearcher \<Rightarrow> ustring list \<Rightarrow> pool \<Rightarrow> bool" where
  "pool_inv E self0 all_files P =
     (same_config (searcher P) self0 \<and>
      length (tasks P) = length all_files \<and>
      (\<forall>i < length all_files. task_ok E self0 (all_files ! i) (tasks P ! i)) \<and>
      files_processed (searcher P) =
        files_processed self0 + (\<Sum>i < length all_files. processed_by E self0 (all_files ! i) (tasks P ! i)) \<and>
      matches_found (searcher P) =
        matches_found self0 + (\<Sum>i < length all_files. found_by E self0 (all_files ! i) (tasks P ! i)) \<and>
      (\<forall>f. results (searcher P) f =
           (if \<exists>i < length all_files. all_files ! i = f \<and> holds_batch E self0 f (tasks P ! i)
            then Some (batch E self0 f) else results self0 f)) \<and>
      set (scanned_paths (trace P)) \<subseteq> {f \<in> set all_files. searchable E self0 f})"


definition pool_after :: "env \<Rightarrow> FileSearcher \<Rightarrow> nat \<Rightarrow> ustring list \<Rightarrow> nat list \<Rightarrow> pool" where
  "pool_after E self workers all_files schedule =
     run_pool E workers all_files schedule (submit_all self all_files)"

definition example_midway :: pool where
  "example_midway =
     pool_after example_env (example_searcher False) 2 (walk example_env (ustr ''d'')) [0, 1, 0]"

definition batch_size :: "FileSearcher \<Rightarrow> ustring \<Rightarrow> int" where
  "batch_size self f = (case results self f of None \<Rightarrow> 0 | Some matches \<Rightarrow> int (length matches))"


section \<open>Properties\<close>

subsection \<open>Strings and the structured scanner\<close>

lemma ustr_eq_iff [simp]: "(ustr s = ustr t) = (s = t)"
proof -
  have "inj (of_char :: char \<Rightarrow> nat)"
    by (rule injI) simp
  then show ?thesis
    by (simp add: ustr_def inj_map_eq_map)
qed

lemma py_in_sublist: "py_in t s = sublist t s"
  by (induction s) (auto simp: sublist_Cons_right)

lemma search_elems_closed:
  "search_elems E self i elems fp path =
     concat (map (\<lambda>(j, item). search_value E self item fp (path @ (ustr ''['') @ str_nat j @ (ustr '']'')))
                 (enumerate i elems))"
  by (induction elems arbitrary: i) (simp_all add: Let_def)

lemma search_items_closed:
  "search_items E self items fp path =
     concat (map (\<lambda>(k, v). (if term_in E self k then [json_match fp (path @ (ustr ''.'') @ k) k] else [])
                            @ search_value E self v fp (path @ (ustr ''.'') @ k))
                 items)"
  by (induction items) (auto simp: Let_def)

lemmas eval_simps = FileSearcher_init_def or_default_def default_extensions_def term_in_def ustr_def
  example_lower_def lower_letter_def cased_def json_match_def example_searcher_def example_env_def

lemma term_in_sublist:
  "term_in E self x = (if case_sensitive self then sublist (search_term self) x
                     else sublist (str_lower E (search_term self)) (str_lower E x))"
  by (simp add: term_in_def py_in_sublist)

lemma search_value_str:
  "search_value E self (JStr s) fp cp =
     (if term_in E self s \<or> py_in (search_term self) s then [json_match fp cp s] else [])"
  by simp

subsection \<open>Constructor\<close>

text \<open>
  C10. When the \<open>file_extensions\<close> argument of the constructor is \<open>None\<close> or the empty
  list, the object's extension list is the default list of eleven extensions. Every
  object built by the constructor has a non-empty extension list, so for such an object
  \<open>is_searchable_file\<close> accepts a path exactly when it is not excluded, not binary, and
  its lower-cased extension is in the list: the wildcard branch plays no part.
\<close>

theorem constructor_extensions:
  "file_extensions (FileSearcher_init t d ex w None cs) = default_extensions \<and>
   file_extensions (FileSearcher_init t d ex w (Some []) cs) = default_extensions \<and>
   default_extensions = [(ustr ''.txt''), (ustr ''.json''), (ustr ''.sql''), (ustr ''.py''), (ustr ''.md''), (ustr ''.csv''), (ustr ''.log''),
                         (ustr ''.xml''), (ustr ''.html''), (ustr ''.js''), (ustr ''.css'')] \<and>
   file_extensions (FileSearcher_init t d ex w exts cs) \<noteq> [] \<and>
   (fst (is_searchable_file E (FileSearcher_init t d ex w exts cs) fp) = Inr True) =
     (is_excluded E (FileSearcher_init t d ex w exts cs) fp = Inr False \<and>
      \<not> is_binary_file E fp \<and>
      str_lower E (splitext_ext fp) \<in> set (file_extensions (FileSearcher_init t d ex w exts cs)))"
proof -
  have ne: "file_extensions (FileSearcher_init t d ex w exts cs) \<noteq> []"
    by (simp add: FileSearcher_init_def or_default_def default_extensions_def split: option.splits)
  have "(fst (is_searchable_file E (FileSearcher_init t d ex w exts cs) fp) = Inr True) =
     (is_excluded E (FileSearcher_init t d ex w exts cs) fp = Inr False \<and>
      \<not> is_binary_file E fp \<and>
      str_lower E (splitext_ext fp) \<in> set (file_extensions (FileSearcher_init t d ex w exts cs)))"
    using ne by (auto simp: is_searchable_file_def Let_def split: sum.splits bool.splits)
  then show ?thesis
    using ne by (simp add: FileSearcher_init_def or_default_def default_extensions_def)
qed

subsection \<open>Structured scanner\<close>

text \<open>
  C7. For the document \<open>{"a": {"b": "findme"}}\<close> and the term \<open>findme\<close>, \<open>search_json\<close>
  returns exactly one match, with line number 0, structural path \<open>$.a.b\<close> and text
  \<open>$.a.b: findme\<close>, whatever the case flag. In general the matches of an object are, for
  each item in order, the key match and the matches of the value under the path extended
  by a dot and the key; the matches of an array are those of each element under the path
  extended by the index in brackets; a nested object or array is searched by
  \<open>search_json\<close> under the extended path. \<open>search_file\<close> starts the walk at \<open>$\<close>: for
  the file \<open>b.json\<close> of the example directory it returns the line match followed by the
  structural match.
\<close>

theorem json_paths:
  "search_json example_env (FileSearcher_init (ustr ''findme'') d ex w exts cs)
       (JDict [((ustr ''a''), JDict [((ustr ''b''), JStr (ustr ''findme''))])]) fp (ustr ''$'')
     = [\<lparr> line_num = 0, line = (ustr ''$.a.b: findme''), file_path = fp, json_path = Some (ustr ''$.a.b'') \<rparr>] \<and>
   search_json E self (JDict items) fp path =
     concat (map (\<lambda>(k, v). (if term_in E self k then [json_match fp (path @ (ustr ''.'') @ k) k] else [])
                            @ search_value E self v fp (path @ (ustr ''.'') @ k))
                 items) \<and>
   search_json E self (JList elems) fp path =
     concat (map (\<lambda>(i, item). search_value E self item fp (path @ (ustr ''['') @ str_nat i @ (ustr '']'')))
                 (enumerate 0 elems)) \<and>
   search_value E self (JDict items) fp path = search_json E self (JDict items) fp path \<and>
   search_value E self (JList elems) fp path = search_json E self (JList elems) fp path \<and>
   fst (search_file example_env (example_searcher cs) (ustr ''d/b.json''))
     = [\<lparr> line_num = 1, line = example_json_line, file_path = (ustr ''d/b.json''), json_path = None \<rparr>,
        \<lparr> line_num = 0, line = (ustr ''$.a.b: findme''), file_path = (ustr ''d/b.json''),
          json_path = Some (ustr ''$.a.b'') \<rparr>]"
proof -
  have ex: "search_json example_env (FileSearcher_init (ustr ''findme'') d ex w exts cs)
       (JDict [((ustr ''a''), JDict [((ustr ''b''), JStr (ustr ''findme''))])]) fp (ustr ''$'')
     = [\<lparr> line_num = 0, line = (ustr ''$.a.b: findme''), file_path = fp, json_path = Some (ustr ''$.a.b'') \<rparr>]"
    by (cases cs) (simp_all add: eval_simps)
  have fileq: "fst (search_file example_env (example_searcher cs) (ustr ''d/b.json''))
     = [\<lparr> line_num = 1, line = example_json_line, file_path = (ustr ''d/b.json''), json_path = None \<rparr>,
        \<lparr> line_num = 0, line = (ustr ''$.a.b: findme''), file_path = (ustr ''d/b.json''),
          json_path = Some (ustr ''$.a.b'') \<rparr>]"
    by (cases cs)
       (simp_all add: search_file_def example_env_def endswith_def rstrip_def isspace_def
          example_json_line_def eval_simps)
  show ?thesis
    using ex fileq by (simp add: search_items_closed search_elems_closed)
qed

text \<open>
  C6. A value that is a number, a boolean or \<open>None\<close> gives a match exactly when the term
  is a contiguous part of \<open>str\<close> of the value, compared as it stands; the case flag has no
  influence on it. So with the flag off, the term \<open>true\<close> misses the boolean \<open>True\<close> and
  finds the string \<open>True\<close>. A string value gives a match when it passes the configured test
  (the term in the value when the flag is set, the lower-cased term in the lower-cased
  value otherwise); the code departs from the claim in that a string value that fails the
  configured test reaches the last \<open>elif\<close> and gives a match when the term occurs in the
  value as it stands. With the flag off, the term capital sigma and the value capital
  alpha, capital sigma, the lower-cased term (small sigma) is not in the lower-cased
  value (small alpha, final sigma), and the code gives a match. These are the matches
  that an element of an array and the value of an object's item contribute.
\<close>

theorem scalar_and_string_values:
  "search_value E self (JAtom a) fp cp =
     (if sublist (search_term self) (py_str a) then [json_match fp cp (py_str a)] else []) \<and>
   search_value E (self\<lparr>case_sensitive := b\<rparr>) (JAtom a) fp cp = search_value E self (JAtom a) fp cp \<and>
   search_value E self (JStr s) fp cp =
     (if (if case_sensitive self then sublist (search_term self) s
          else sublist (str_lower E (search_term self)) (str_lower E s)) \<or>
         sublist (search_term self) s
      then [json_match fp cp s] else []) \<and>
   search_json E self (JList elems) fp path =
     concat (map (\<lambda>(i, item). search_value E self item fp (path @ (ustr ''['') @ str_nat i @ (ustr '']'')))
                 (enumerate 0 elems)) \<and>
   search_json E self (JDict items) fp path =
     concat (map (\<lambda>(k, v). (if term_in E self k then [json_match fp (path @ (ustr ''.'') @ k) k] else [])
                            @ search_value E self v fp (path @ (ustr ''.'') @ k))
                 items) \<and>
   search_json example_env (FileSearcher_init (ustr ''true'') d ex w exts False)
       (JList [JAtom (PBool True), JStr (ustr ''True'')]) fp (ustr ''$'')
     = [\<lparr> line_num = 0, line = (ustr ''$[1]: True''), file_path = fp, json_path = Some (ustr ''$[1]'') \<rparr>] \<and>
   search_json example_env (FileSearcher_init (ustr ''True'') d ex w exts cs)
       (JList [JAtom (PBool True)]) fp (ustr ''$'')
     = [\<lparr> line_num = 0, line = (ustr ''$[0]: True''), file_path = fp, json_path = Some (ustr ''$[0]'') \<rparr>] \<and>
   str_lower example_env [0x3A3] = [0x3C3] \<and>
   str_lower example_env [0x391, 0x3A3] = [0x3B1, 0x3C2] \<and>
   \<not> term_in example_env (FileSearcher_init [0x3A3] d ex w exts False) [0x391, 0x3A3] \<and>
   search_json example_env (FileSearcher_init [0x3A3] d ex w exts False)
       (JList [JStr [0x391, 0x3A3]]) fp (ustr ''$'')
     = [\<lparr> line_num = 0, line = (ustr ''$[0]: '') @ [0x391, 0x3A3], file_path = fp,
          json_path = Some (ustr ''$[0]'') \<rparr>]"
proof -
  have ex1: "search_json example_env (FileSearcher_init (ustr ''true'') d ex w exts False)
       (JList [JAtom (PBool True), JStr (ustr ''True'')]) fp (ustr ''$'')
     = [\<lparr> line_num = 0, line = (ustr ''$[1]: True''), file_path = fp, json_path = Some (ustr ''$[1]'') \<rparr>]"
    by (simp add: eval_simps example_env_def str_nat.simps)
  have ex2: "search_json example_env (FileSearcher_init (ustr ''True'') d ex w exts cs)
       (JList [JAtom (PBool True)]) fp (ustr ''$'')
     = [\<lparr> line_num = 0, line = (ustr ''$[0]: True''), file_path = fp, json_path = Some (ustr ''$[0]'') \<rparr>]"
    by (simp add: eval_simps example_env_def str_nat.simps)
  have lo: "str_lower example_env [0x3A3] = [0x3C3]"
    "str_lower example_env [0x391, 0x3A3] = [0x3B1, 0x3C2]"
    by (simp_all add: eval_simps example_env_def)
  have nt: "\<not> term_in example_env (FileSearcher_init [0x3A3] d ex w exts False) [0x391, 0x3A3]"
    by (simp add: eval_simps example_env_def)
  have ex3: "search_json example_env (FileSearcher_init [0x3A3] d ex w exts False)
       (JList [JStr [0x391, 0x3A3]]) fp (ustr ''$'')
     = [\<lparr> line_num = 0, line = (ustr ''$[0]: '') @ [0x391, 0x3A3], file_path = fp,
          json_path = Some (ustr ''$[0]'') \<rparr>]"
    by (simp add: eval_simps example_env_def str_nat.simps)
  have str: "search_value E self (JStr s) fp cp =
     (if (if case_sensitive self then sublist (search_term self) s
          else sublist (str_lower E (search_term self)) (str_lower E s)) \<or>
         sublist (search_term self) s
      then [json_match fp cp s] else [])"
    using search_value_str [of E self s fp cp] term_in_sublist [of E self s]
    by (simp add: py_in_sublist)
  have atom: "search_value E self (JAtom a) fp cp =
     (if sublist (search_term self) (py_str a) then [json_match fp cp (py_str a)] else [])"
    by (simp add: py_in_sublist)
  have flag: "search_value E (self\<lparr>case_sensitive := b\<rparr>) (JAtom a) fp cp =
     search_value E self (JAtom a) fp cp"
    by simp
  have lst: "search_json E self (JList elems) fp path =
     concat (map (\<lambda>(i, item). search_value E self item fp (path @ (ustr ''['') @ str_nat i @ (ustr '']'')))
                 (enumerate 0 elems))"
    by (simp add: search_elems_closed)
  have dct: "search_json E self (JDict items) fp path =
     concat (map (\<lambda>(k, v). (if term_in E self k then [json_match fp (path @ (ustr ''.'') @ k) k] else [])
                            @ search_value E self v fp (path @ (ustr ''.'') @ k))
                 items)"
    by (simp add: search_items_closed)
  show ?thesis
    using atom flag str lst dct ex1 ex2 lo nt ex3 by (intro conjI)
qed

subsection \<open>Configuration, invariant and progress\<close>

lemma term_in_config: "same_config s t \<Longrightarrow> term_in E s x = term_in E t x"
  by (simp add: same_config_def term_in_def)

lemma scan_lines_config: "same_config s t \<Longrightarrow> scan_lines E s fp n ls = scan_lines E t fp n ls"
  by (induction ls arbitrary: n) (simp_all add: term_in_config)

lemma search_json_config:
  "same_config s t \<Longrightarrow> search_json E s d fp path = search_json E t d fp path"
  "same_config s t \<Longrightarrow> search_items E s items fp path = search_items E t items fp path"
  "same_config s t \<Longrightarrow> search_value E s v fp path = search_value E t v fp path"
  "same_config s t \<Longrightarrow> search_elems E s i elems fp path = search_elems E t i elems fp path"
proof (induction E s d fp path and E s items fp path and E s v fp path and E s i elems fp path
       rule: search_json_search_items_search_value_search_elems.induct)
qed (simp_all add: term_in_config Let_def, simp_all add: same_config_def)

lemma scan_lines_lower:
  "str_lower E' = str_lower E \<Longrightarrow> scan_lines E' self fp n ls = scan_lines E self fp n ls"
  by (induction ls arbitrary: n) (simp_all add: term_in_def)

lemma search_json_lower:
  "str_lower E' = str_lower E \<Longrightarrow> search_json E' self d fp path = search_json E self d fp path"
  "str_lower E' = str_lower E \<Longrightarrow> search_items E' self items fp path = search_items E self items fp path"
  "str_lower E' = str_lower E \<Longrightarrow> search_value E' self v fp path = search_value E self v fp path"
  "str_lower E' = str_lower E \<Longrightarrow> search_elems E' self i elems fp path = search_elems E self i elems fp path"
proof (induction E' self d fp path and E' self items fp path and E' self v fp path
         and E' self i elems fp path
       rule: search_json_search_items_search_value_search_elems.induct)
qed (simp_all add: term_in_def Let_def)

lemma search_file_config: "same_config s t \<Longrightarrow> search_file E s fp = search_file E t fp"
  by (simp add: search_file_def scan_lines_config search_json_config(1) Let_def
           split: text_read.splits option.splits json_read.splits)

lemma is_searchable_file_config:
  "same_config s t \<Longrightarrow> is_searchable_file E s fp = is_searchable_file E t fp"
  by (simp add: is_searchable_file_def is_excluded_def same_config_def Let_def
           split: sum.splits bool.splits)

lemma scanned_paths_append [simp]:
  "scanned_paths (xs @ ys) = scanned_paths xs @ scanned_paths ys"
  by (induction xs rule: scanned_paths.induct) simp_all

lemma scanned_paths_classifier: "scanned_paths (snd (is_searchable_file E self fp)) = []"
  by (simp add: is_searchable_file_def Let_def split: sum.splits bool.splits)

lemma scanned_paths_search_file: "set (scanned_paths (snd (search_file E self fp))) \<subseteq> {fp}"
  by (simp add: search_file_def Let_def split: text_read.splits option.splits json_read.splits)

lemma step_effect:
  assumes cfg: "same_config self self0"
    and ok: "task_ok E self0 fp t"
    and step: "process_file_step E fp t self = (t', self', ev)"
  shows "same_config self' self0"
    and "task_ok E self0 fp t'"
    and "files_processed self' =
           files_processed self + (processed_by E self0 fp t' - processed_by E self0 fp t)"
    and "matches_found self' =
           matches_found self + (found_by E self0 fp t' - found_by E self0 fp t)"
    and "results self' =
           (if holds_batch E self0 fp t' \<and> \<not> holds_batch E self0 fp t
            then (results self)(fp \<mapsto> batch E self0 fp) else results self)"
    and "holds_batch E self0 fp t \<Longrightarrow> holds_batch E self0 fp t'"
    and "set (scanned_paths ev) \<subseteq> (if searchable E self0 fp then {fp} else {})"
proof -
  note c1 = is_searchable_file_config [OF cfg, of E fp]
  note c2 = search_file_config [OF cfg, of E fp]
  have all: "same_config self' self0 \<and> task_ok E self0 fp t' \<and>
      files_processed self' =
           files_processed self + (processed_by E self0 fp t' - processed_by E self0 fp t) \<and>
      matches_found self' =
           matches_found self + (found_by E self0 fp t' - found_by E self0 fp t) \<and>
      results self' =
           (if holds_batch E self0 fp t' \<and> \<not> holds_batch E self0 fp t
            then (results self)(fp \<mapsto> batch E self0 fp) else results self) \<and>
      (holds_batch E self0 fp t \<longrightarrow> holds_batch E self0 fp t') \<and>
      set (scanned_paths ev) \<subseteq> (if searchable E self0 fp then {fp} else {})"
  proof (cases t)
    case Pending
    obtain r ev0 where r: "is_searchable_file E self0 fp = (r, ev0)"
      by (cases "is_searchable_file E self0 fp")
    have ev0: "scanned_paths ev0 = []"
      using scanned_paths_classifier [of E self0 fp] r by simp
    show ?thesis
    proof (cases r)
      case (Inl e)
      then show ?thesis
        using Pending step cfg r ev0 c1
        by (auto simp: searchable_def processed_by_def found_by_def holds_batch_def)
    next
      case (Inr b)
      show ?thesis
      proof (cases b)
        case True
        obtain ms ev1 where s: "search_file E self0 fp = (ms, ev1)"
          by (cases "search_file E self0 fp")
        have "set (scanned_paths ev1) \<subseteq> {fp}"
          using scanned_paths_search_file [of E self0 fp] s by simp
        then show ?thesis
          using Pending step cfg r ev0 c1 c2 Inr True s
          by (auto simp: searchable_def processed_by_def found_by_def holds_batch_def batch_def)
      next
        case False
        then show ?thesis
          using Pending step cfg r ev0 c1 Inr
          by (auto simp: searchable_def processed_by_def found_by_def holds_batch_def)
      qed
    qed
  next
    case (Scanned ms)
    then show ?thesis
      using step cfg ok
      by (auto simp: processed_by_def found_by_def holds_batch_def merge_matches_def
            same_config_def)
  next
    case Merged
    then show ?thesis
      using step cfg ok
      by (auto simp: processed_by_def found_by_def holds_batch_def count_file_def
            same_config_def)
  next
    case Finished
    then show ?thesis
      using step cfg by auto
  next
    case (Raised e)
    then show ?thesis
      using step cfg ok by auto
  qed
  show "same_config self' self0" using all by blast
  show "task_ok E self0 fp t'" using all by blast
  show "files_processed self' =
           files_processed self + (processed_by E self0 fp t' - processed_by E self0 fp t)"
    using all by blast
  show "matches_found self' =
           matches_found self + (found_by E self0 fp t' - found_by E self0 fp t)"
    using all by blast
  show "results self' =
           (if holds_batch E self0 fp t' \<and> \<not> holds_batch E self0 fp t
            then (results self)(fp \<mapsto> batch E self0 fp) else results self)"
    using all by blast
  show "holds_batch E self0 fp t \<Longrightarrow> holds_batch E self0 fp t'" using all by blast
  show "set (scanned_paths ev) \<subseteq> (if searchable E self0 fp then {fp} else {})"
    using all by blast
qed

lemma sum_nth_update:
  fixes g :: "nat \<Rightarrow> 'a \<Rightarrow> int"
  assumes "i < length xs"
  shows "(\<Sum>j < length xs. g j (xs[i := y] ! j)) =
         (\<Sum>j < length xs. g j (xs ! j)) + (g i y - g i (xs ! i))"
proof -
  let ?A = "{..<length xs}"
  have fin: "finite ?A" and mem: "i \<in> ?A"
    using assms by simp_all
  have a: "(\<Sum>j \<in> ?A. g j (xs[i := y] ! j)) =
        g i (xs[i := y] ! i) + (\<Sum>j \<in> ?A - {i}. g j (xs[i := y] ! j))"
    by (rule sum.remove [OF fin mem])
  have b: "(\<Sum>j \<in> ?A. g j (xs ! j)) = g i (xs ! i) + (\<Sum>j \<in> ?A - {i}. g j (xs ! j))"
    by (rule sum.remove [OF fin mem])
  have c: "(\<Sum>j \<in> ?A - {i}. g j (xs[i := y] ! j)) = (\<Sum>j \<in> ?A - {i}. g j (xs ! j))"
    by (rule sum.cong) simp_all
  show ?thesis
    using a b c assms by simp
qed

lemma pool_inv_submit: "pool_inv E self all_files (submit_all self all_files)"
  by (auto simp: pool_inv_def submit_all_def same_config_def processed_by_def found_by_def
        holds_batch_def)

lemma pool_inv_step:
  assumes inv: "pool_inv E self0 all_files P"
  shows "pool_inv E self0 all_files (step_pool E w all_files i P)"
proof (cases "i < length (tasks P) \<and> i < length all_files \<and>
              \<not> (tasks P ! i = Pending \<and> w \<le> length (filter running (tasks P)))")
  case False
  then have "step_pool E w all_files i P = P"
    by (auto simp: step_pool_def)
  with inv show ?thesis by simp
next
  case True
  define fp where "fp = all_files ! i"
  define t where "t = tasks P ! i"
  obtain t' self' ev where st: "process_file_step E fp t (searcher P) = (t', self', ev)"
    by (cases "process_file_step E fp t (searcher P)")
  have P': "step_pool E w all_files i P =
              \<lparr> searcher = self', tasks = (tasks P)[i := t'], trace = trace P @ ev \<rparr>"
    using True st by (auto simp: step_pool_def fp_def t_def)
  have i: "i < length all_files" and i': "i < length (tasks P)"
    using True by simp_all
  have cfg: "same_config (searcher P) self0"
    and len: "length (tasks P) = length all_files"
    and ok: "\<forall>j < length all_files. task_ok E self0 (all_files ! j) (tasks P ! j)"
    and fpr: "files_processed (searcher P) = files_processed self0 +
                (\<Sum>j < length all_files. processed_by E self0 (all_files ! j) (tasks P ! j))"
    and mf: "matches_found (searcher P) = matches_found self0 +
                (\<Sum>j < length all_files. found_by E self0 (all_files ! j) (tasks P ! j))"
    and res: "\<forall>f. results (searcher P) f =
           (if \<exists>j < length all_files. all_files ! j = f \<and> holds_batch E self0 f (tasks P ! j)
            then Some (batch E self0 f) else results self0 f)"
    and tr: "set (scanned_paths (trace P)) \<subseteq> {f \<in> set all_files. searchable E self0 f}"
    using inv by (simp_all add: pool_inv_def)
  have okt: "task_ok E self0 fp t"
    using ok i by (simp add: fp_def t_def)
  note eff = step_effect [OF cfg okt st]
  have ok': "\<forall>j < length all_files. task_ok E self0 (all_files ! j) ((tasks P)[i := t'] ! j)"
    using ok eff(2) i' by (auto simp: nth_list_update fp_def)
  have fpr': "files_processed self' = files_processed self0 +
      (\<Sum>j < length all_files. processed_by E self0 (all_files ! j) ((tasks P)[i := t'] ! j))"
    using sum_nth_update [OF i', of "\<lambda>j. processed_by E self0 (all_files ! j)" t']
      eff(3) fpr len by (simp add: fp_def t_def)
  have mf': "matches_found self' = matches_found self0 +
      (\<Sum>j < length all_files. found_by E self0 (all_files ! j) ((tasks P)[i := t'] ! j))"
    using sum_nth_update [OF i', of "\<lambda>j. found_by E self0 (all_files ! j)" t']
      eff(4) mf len by (simp add: fp_def t_def)
  have res': "results self' f =
           (if \<exists>j < length all_files. all_files ! j = f \<and>
                 holds_batch E self0 f ((tasks P)[i := t'] ! j)
            then Some (batch E self0 f) else results self0 f)" for f
  proof -
    let ?old = "\<exists>j < length all_files. all_files ! j = f \<and> holds_batch E self0 f (tasks P ! j)"
    let ?new = "\<exists>j < length all_files. all_files ! j = f \<and>
                 holds_batch E self0 f ((tasks P)[i := t'] ! j)"
    have old: "results (searcher P) f = (if ?old then Some (batch E self0 f) else results self0 f)"
      using res by blast
    have mono: "?old \<Longrightarrow> ?new"
    proof -
      assume ?old
      then obtain j where j: "j < length all_files" "all_files ! j = f"
        "holds_batch E self0 f (tasks P ! j)" by blast
      show ?new
      proof (cases "j = i")
        case True
        then have "holds_batch E self0 f t'"
          using j eff(6) by (simp add: fp_def t_def)
        then show ?thesis
          using j True i' by auto
      next
        case False
        then show ?thesis using j by auto
      qed
    qed
    have newD: "?new \<Longrightarrow> ?old \<or> (f = fp \<and> holds_batch E self0 fp t')"
    proof -
      assume ?new
      then obtain j where j: "j < length all_files" "all_files ! j = f"
        "holds_batch E self0 f ((tasks P)[i := t'] ! j)" by blast
      show "?old \<or> (f = fp \<and> holds_batch E self0 fp t')"
      proof (cases "j = i")
        case True
        then show ?thesis using j i' by (auto simp: fp_def)
      next
        case False
        then show ?thesis using j by auto
      qed
    qed
    have hit: "f = fp \<Longrightarrow> holds_batch E self0 fp t' \<Longrightarrow> ?new"
      using i i' by (auto simp: fp_def)
    have told: "f = fp \<Longrightarrow> holds_batch E self0 fp t \<Longrightarrow> ?old"
      using i by (auto simp: fp_def t_def)
    show ?thesis
    proof (cases "holds_batch E self0 fp t' \<and> \<not> holds_batch E self0 fp t")
      case True
      then have r: "results self' = (results (searcher P))(fp \<mapsto> batch E self0 fp)"
        using eff(5) by simp
      show ?thesis
      proof (cases "f = fp")
        case True
        with r hit \<open>holds_batch E self0 fp t' \<and> \<not> holds_batch E self0 fp t\<close>
        show ?thesis by simp
      next
        case False
        then have "?new = ?old" using mono newD by blast
        with r False old show ?thesis by simp
      qed
    next
      case False
      then have r: "results self' = results (searcher P)"
        using eff(5) by auto
      have "?new = ?old"
        using mono newD told False by blast
      with r old show ?thesis by simp
    qed
  qed
  have tr': "set (scanned_paths (trace P @ ev)) \<subseteq> {f \<in> set all_files. searchable E self0 f}"
    using tr eff(7) i by (auto simp: fp_def split: if_splits)
  show ?thesis
    unfolding P' pool_inv_def
    using eff(1) len ok' fpr' mf' res' tr' by simp
qed

lemma pool_inv_run:
  "pool_inv E self0 all_files P \<Longrightarrow> pool_inv E self0 all_files (run_pool E w all_files schedule P)"
  unfolding run_pool_def
  by (induction schedule arbitrary: P) (simp_all add: pool_inv_step)

lemma sum_nth_sum_list:
  fixes g :: "'a \<Rightarrow> int"
  shows "(\<Sum>i < length xs. g (xs ! i)) = sum_list (map g xs)"
proof -
  have "sum_list (map g xs) = (\<Sum>i = 0..<length (map g xs). map g xs ! i)"
    by (rule sum_list_sum_nth)
  also have "\<dots> = (\<Sum>i < length xs. g (xs ! i))"
    by (simp add: atLeast0LessThan)
  finally show ?thesis by simp
qed

lemma sum_list_if_filter:
  fixes g :: "'a \<Rightarrow> int"
  shows "sum_list (map (\<lambda>x. if Q x then g x else 0) xs) = sum_list (map g (filter Q xs))"
  by (induction xs) simp_all

lemma sum_list_indicator:
  "sum_list (map (\<lambda>x. if Q x then 1 else 0) xs) = int (length (filter Q xs))"
  by (induction xs) simp_all

lemma done_task:
  assumes inv: "pool_inv E self0 all_files P" and dn: "all_done P" and i: "i < length all_files"
  shows "processed_by E self0 (all_files ! i) (tasks P ! i) =
           (if searchable E self0 (all_files ! i) then 1 else 0)"
    and "found_by E self0 (all_files ! i) (tasks P ! i) =
           (if searchable E self0 (all_files ! i)
            then int (length (batch E self0 (all_files ! i))) else 0)"
    and "holds_batch E self0 (all_files ! i) (tasks P ! i) =
           (searchable E self0 (all_files ! i) \<and> batch E self0 (all_files ! i) \<noteq> [])"
proof -
  have len: "length (tasks P) = length all_files"
    and ok: "task_ok E self0 (all_files ! i) (tasks P ! i)"
    using inv i by (simp_all add: pool_inv_def)
  have fin: "finished (tasks P ! i)"
    using dn i len by (simp add: all_done_def list_all_length)
  show "processed_by E self0 (all_files ! i) (tasks P ! i) =
           (if searchable E self0 (all_files ! i) then 1 else 0)"
    using fin ok by (cases "tasks P ! i") (simp_all add: processed_by_def)
  show "found_by E self0 (all_files ! i) (tasks P ! i) =
           (if searchable E self0 (all_files ! i)
            then int (length (batch E self0 (all_files ! i))) else 0)"
    using fin ok by (cases "tasks P ! i") (simp_all add: found_by_def)
  show "holds_batch E self0 (all_files ! i) (tasks P ! i) =
           (searchable E self0 (all_files ! i) \<and> batch E self0 (all_files ! i) \<noteq> [])"
    using fin ok by (cases "tasks P ! i") (simp_all add: holds_batch_def)
qed

lemma done_counters:
  assumes inv: "pool_inv E self0 all_files P" and dn: "all_done P"
  shows "files_processed (searcher P) =
           files_processed self0 + int (length (filter (searchable E self0) all_files))"
    and "matches_found (searcher P) =
           matches_found self0 +
           sum_list (map (\<lambda>f. int (length (batch E self0 f))) (filter (searchable E self0) all_files))"
proof -
  have "(\<Sum>i < length all_files. processed_by E self0 (all_files ! i) (tasks P ! i)) =
        (\<Sum>i < length all_files. if searchable E self0 (all_files ! i) then 1 else 0)"
    by (rule sum.cong) (simp_all add: done_task(1) [OF inv dn])
  also have "\<dots> = int (length (filter (searchable E self0) all_files))"
    using sum_nth_sum_list [of "\<lambda>f. if searchable E self0 f then 1 else 0" all_files]
    by (simp add: sum_list_indicator)
  finally show "files_processed (searcher P) =
           files_processed self0 + int (length (filter (searchable E self0) all_files))"
    using inv by (simp add: pool_inv_def)
  have "(\<Sum>i < length all_files. found_by E self0 (all_files ! i) (tasks P ! i)) =
        (\<Sum>i < length all_files. if searchable E self0 (all_files ! i)
            then int (length (batch E self0 (all_files ! i))) else 0)"
    by (rule sum.cong) (simp_all add: done_task(2) [OF inv dn])
  also have "\<dots> = sum_list (map (\<lambda>f. int (length (batch E self0 f)))
                             (filter (searchable E self0) all_files))"
    using sum_nth_sum_list [of "\<lambda>f. if searchable E self0 f
            then int (length (batch E self0 f)) else 0" all_files]
    by (simp add: sum_list_if_filter)
  finally show "matches_found (searcher P) =
           matches_found self0 +
           sum_list (map (\<lambda>f. int (length (batch E self0 f))) (filter (searchable E self0) all_files))"
    using inv by (simp add: pool_inv_def)
qed

lemma done_results:
  assumes inv: "pool_inv E self0 all_files P" and dn: "all_done P"
  shows "results (searcher P) f =
           (if f \<in> set all_files \<and> searchable E self0 f \<and> batch E self0 f \<noteq> []
            then Some (batch E self0 f) else results self0 f)"
proof -
  have "(\<exists>i < length all_files. all_files ! i = f \<and> holds_batch E self0 f (tasks P ! i)) =
        (f \<in> set all_files \<and> searchable E self0 f \<and> batch E self0 f \<noteq> [])"
    using done_task(3) [OF inv dn] by (auto simp: in_set_conv_nth)
  then show ?thesis
    using inv by (simp add: pool_inv_def)
qed

lemma search_directory_inv:
  assumes "search_directory E schedule self0 = Some P"
  shows "pool_inv E self0 (walk E (directory self0)) P \<and> all_done P"
proof (cases "walk E (directory self0) = []")
  case True
  then have "P = submit_all self0 []"
    using assms by (simp add: search_directory_def)
  then show ?thesis
    using True pool_inv_submit [of E self0 "[]"] by (simp add: all_done_def submit_all_def)
next
  case False
  then show ?thesis
    using assms pool_inv_run [OF pool_inv_submit, of E self0 "walk E (directory self0)"]
    by (auto simp: search_directory_def Let_def split: if_splits)
qed

lemmas world_simps = example_env_def example_json_line_def search_file_def is_searchable_file_def
  is_excluded_def is_binary_file_def splitext_ext_def endswith_def rstrip_def isspace_def
  eval_simps

lemmas pool_simps = search_directory_def run_pool_def step_pool_def submit_all_def all_done_def
  effective_workers_def merge_matches_def count_file_def



lemma process_file_steps:
  "(case process_file_step E fp Pending self of (t1, s1, ev1) \<Rightarrow>
      case process_file_step E fp t1 s1 of (t2, s2, ev2) \<Rightarrow>
        case process_file_step E fp t2 s2 of (t3, s3, ev3) \<Rightarrow>
          (case t3 of Raised e \<Rightarrow> Inl e | _ \<Rightarrow> Inr s3, ev1 @ ev2 @ ev3))
   = process_file E self fp"
  by (simp add: process_file_def Let_def split: prod.splits sum.splits bool.splits)







subsection \<open>Lines and trailing white space\<close>

lemma scan_lines_closed:
  "scan_lines E self fp (n + int k) ls =
     map (\<lambda>(i, l). \<lparr> line_num = n + int i, line = rstrip l, file_path = fp, json_path = None \<rparr>)
         (filter (\<lambda>(i, l). term_in E self l) (enumerate k ls))"
proof (induction ls arbitrary: k)
  case Nil
  show ?case by simp
next
  case (Cons l ls)
  have "scan_lines E self fp (n + int k + 1) ls = scan_lines E self fp (n + int (Suc k)) ls"
    by (simp add: algebra_simps)
  with Cons [of "Suc k"] show ?case by simp
qed

lemma rstrip_split: "\<exists>ws. l = rstrip l @ ws \<and> list_all isspace ws"
proof -
  have "rev l = takeWhile isspace (rev l) @ dropWhile isspace (rev l)"
    by simp
  then have "l = rev (dropWhile isspace (rev l)) @ rev (takeWhile isspace (rev l))"
    by (metis rev_append rev_rev_ident)
  moreover have "list_all isspace (rev (takeWhile isspace (rev l)))"
    by (simp add: list_all_iff) (meson set_takeWhileD)
  ultimately show ?thesis
    unfolding rstrip_def by blast
qed

lemma rstrip_last: "rstrip l = [] \<or> \<not> isspace (last (rstrip l))"
proof (cases "dropWhile isspace (rev l)")
  case Nil
  then show ?thesis by (simp add: rstrip_def)
next
  case (Cons c cs)
  then have "\<not> isspace c"
    by (metis hd_dropWhile list.distinct(1) list.sel(1))
  with Cons show ?thesis by (simp add: rstrip_def)
qed

lemma isspace_newline: "isspace 10"
  by (simp add: isspace_def)

lemma rstrip_newline_only: "\<not> isspace c \<Longrightarrow> rstrip (s @ [c] @ (ustr ''\<newline>'')) = s @ [c]"
  by (simp add: rstrip_def isspace_newline ustr_def)

lemma search_file_prefix:
  "read_text E fp = Lines ls err \<Longrightarrow> prefix (scan_lines E self fp 1 ls) (fst (search_file E self fp))"
  by (simp add: search_file_def Let_def split: option.splits json_read.splits)

subsection \<open>Counters and results between the critical sections\<close>

lemma running_matches_found:
  assumes inv: "pool_inv E self0 all_files P" and d: "distinct all_files"
    and e: "results self0 = Map.empty"
  shows "matches_found (searcher P) =
           matches_found self0 + sum_list (map (batch_size (searcher P)) all_files)"
proof -
  have "batch_size (searcher P) (all_files ! i) = found_by E self0 (all_files ! i) (tasks P ! i)"
    if i: "i < length all_files" for i
  proof -
    have "(\<exists>j < length all_files. all_files ! j = all_files ! i \<and>
             holds_batch E self0 (all_files ! i) (tasks P ! j)) =
          holds_batch E self0 (all_files ! i) (tasks P ! i)"
      using d i by (auto simp: nth_eq_iff_index_eq)
    then have "results (searcher P) (all_files ! i) =
          (if holds_batch E self0 (all_files ! i) (tasks P ! i)
           then Some (batch E self0 (all_files ! i)) else None)"
      using inv e by (simp add: pool_inv_def)
    then show ?thesis
      by (auto simp: batch_size_def found_by_def holds_batch_def)
  qed
  then have "(\<Sum>i < length all_files. found_by E self0 (all_files ! i) (tasks P ! i)) =
        (\<Sum>i < length all_files. batch_size (searcher P) (all_files ! i))"
    by simp
  also have "\<dots> = sum_list (map (batch_size (searcher P)) all_files)"
    by (rule sum_nth_sum_list)
  finally show ?thesis
    using inv by (simp add: pool_inv_def)
qed

lemma running_files_processed:
  assumes inv: "pool_inv E self0 all_files P"
  shows "files_processed (searcher P) =
           files_processed self0 +
           int (length (filter (\<lambda>(t, f). t = Finished \<and> searchable E self0 f)
                               (zip (tasks P) all_files)))"
proof -
  let ?zs = "zip (tasks P) all_files"
  have len: "length (tasks P) = length all_files"
    using inv by (simp add: pool_inv_def)
  let ?Q = "\<lambda>(t, f). t = Finished \<and> searchable E self0 f"
  have "(\<Sum>i < length all_files. processed_by E self0 (all_files ! i) (tasks P ! i)) =
        (\<Sum>i < length ?zs. (\<lambda>z. if ?Q z then 1 else (0::int)) (?zs ! i))"
    using len by (simp add: processed_by_def)
  also have "\<dots> = sum_list (map (\<lambda>z. if ?Q z then 1 else 0) ?zs)"
    by (rule sum_nth_sum_list)
  also have "\<dots> = int (length (filter ?Q ?zs))"
    by (rule sum_list_indicator)
  finally show ?thesis
    using inv by (simp add: pool_inv_def)
qed

lemma running_results_dom:
  assumes inv: "pool_inv E self0 all_files P" and e: "results self0 = Map.empty"
  shows "dom (results (searcher P)) \<subseteq> set all_files"
proof
  fix f assume "f \<in> dom (results (searcher P))"
  then have "results (searcher P) f \<noteq> None" by auto
  then have "\<exists>i < length all_files. all_files ! i = f"
    using inv e by (auto simp: pool_inv_def split: if_splits)
  then show "f \<in> set all_files" by (auto simp: in_set_conv_nth)
qed


subsection \<open>Errors during the scan\<close>

text \<open>
  C1 (amended). When the text-mode \<open>open\<close> fails, \<open>search_file\<close> returns the empty list.
  When the iteration over the file raises after some lines, \<open>search_file\<close> returns the
  matches of the lines read before the error. In both cases it prints one line, with the
  path and the message, and returns normally. What \<open>search_file\<close> returns for a path
  depends on the reads of that path only, so an error on one file changes nothing for
  another. \<open>process_file\<close> on a path that passed classification returns normally, with
  the batch merged when it is not empty and the file counted.
\<close>

theorem scan_error_partial:
  "(read_text E fp = OpenFailed e \<longrightarrow>
      search_file E self fp = ([], [OpenText fp, Printed (error_line fp e)])) \<and>
   (read_text E fp = Lines ls (Some e) \<longrightarrow>
      search_file E self fp =
        (scan_lines E self fp 1 ls, [OpenText fp, Printed (error_line fp e)])) \<and>
   (str_lower E' = str_lower E \<and> read_text E' f = read_text E f \<and> load_json E' f = load_json E f \<longrightarrow>
      search_file E' self f = search_file E self f) \<and>
   (searchable E self fp \<longrightarrow>
      fst (process_file E self fp) =
        Inr (count_file (if batch E self fp \<noteq> [] then merge_matches self fp (batch E self fp)
                         else self)))"
proof -
  have a: "str_lower E' = str_lower E \<and> read_text E' f = read_text E f \<and> load_json E' f = load_json E f \<longrightarrow>
      search_file E' self f = search_file E self f"
  proof (intro impI, elim conjE)
    assume l: "str_lower E' = str_lower E"
      and r: "read_text E' f = read_text E f"
      and j: "load_json E' f = load_json E f"
    have s1: "scan_lines E' self f 1 xs = scan_lines E self f 1 xs" for xs
      by (rule scan_lines_lower [OF l])
    have s2: "search_json E' self v f p = search_json E self v f p" for v p
      by (rule search_json_lower(1) [OF l])
    show "search_file E' self f = search_file E self f"
      unfolding search_file_def r j l s1 s2 by (rule refl)
  qed
  have b: "searchable E self fp \<longrightarrow>
      fst (process_file E self fp) =
        Inr (count_file (if batch E self fp \<noteq> [] then merge_matches self fp (batch E self fp)
                         else self))"
    by (auto simp: searchable_def process_file_def batch_def Let_def
             split: prod.splits sum.splits bool.splits)
  show ?thesis
    using a b by (simp add: search_file_def)
qed

theorem scan_error_partial_witness:
  "read_text example_env (ustr ''d/e.log'') = Lines [(ustr ''findme first\<newline>'')] (Some (ustr ''Input/output error'')) \<and>
   search_file example_env (example_searcher False) (ustr ''d/e.log'') =
     ([\<lparr> line_num = 1, line = (ustr ''findme first''), file_path = (ustr ''d/e.log''), json_path = None \<rparr>],
      [OpenText (ustr ''d/e.log''), Printed (error_line (ustr ''d/e.log'') (ustr ''Input/output error''))]) \<and>
   read_text example_env (ustr ''missing'') = OpenFailed (ustr ''No such file or directory'') \<and>
   search_file example_env (example_searcher False) (ustr ''missing'') =
     ([], [OpenText (ustr ''missing''), Printed (error_line (ustr ''missing'') (ustr ''No such file or directory''))]) \<and>
   search_file (example_env\<lparr>read_text := (read_text example_env)((ustr ''d/e.log'') := OpenFailed (ustr ''gone''))\<rparr>)
       (example_searcher False) (ustr ''d/a.txt'') =
     search_file example_env (example_searcher False) (ustr ''d/a.txt'') \<and>
   searchable example_env (example_searcher False) (ustr ''d/e.log'') \<and>
   files_processed (projr (fst (process_file example_env (example_searcher False) (ustr ''d/e.log'')))) = 1"
proof -
  let ?E' = "example_env\<lparr>read_text := (read_text example_env)((ustr ''d/e.log'') := OpenFailed (ustr ''gone''))\<rparr>"
  have r1: "read_text example_env (ustr ''d/e.log'') =
              Lines [(ustr ''findme first\<newline>'')] (Some (ustr ''Input/output error''))"
    by (simp add: example_env_def)
  have r2: "read_text example_env (ustr ''missing'') = OpenFailed (ustr ''No such file or directory'')"
    by (simp add: example_env_def)
  have s: "searchable example_env (example_searcher False) (ustr ''d/e.log'')"
    by (simp add: searchable_def world_simps Let_def)
  have sc: "scan_lines example_env (example_searcher False) (ustr ''d/e.log'') 1 [(ustr ''findme first\<newline>'')] =
     [\<lparr> line_num = 1, line = (ustr ''findme first''), file_path = (ustr ''d/e.log''), json_path = None \<rparr>]"
    by (simp add: world_simps)
  have i: "str_lower ?E' = str_lower example_env \<and>
           read_text ?E' (ustr ''d/a.txt'') = read_text example_env (ustr ''d/a.txt'') \<and>
           load_json ?E' (ustr ''d/a.txt'') = load_json example_env (ustr ''d/a.txt'')"
    by simp
  note t1 = scan_error_partial [where E = example_env and fp = "(ustr ''d/e.log'')"
      and self = "example_searcher False" and ls = "[(ustr ''findme first\<newline>'')]"
      and e = "(ustr ''Input/output error'')" and f = "(ustr ''d/a.txt'')" and E' = ?E']
  note t2 = scan_error_partial [where E = example_env and fp = "(ustr ''missing'')"
      and self = "example_searcher False" and e = "(ustr ''No such file or directory'')"]
  have c2: "search_file example_env (example_searcher False) (ustr ''d/e.log'') =
     (scan_lines example_env (example_searcher False) (ustr ''d/e.log'') 1 [(ustr ''findme first\<newline>'')],
      [OpenText (ustr ''d/e.log''), Printed (error_line (ustr ''d/e.log'') (ustr ''Input/output error''))])"
    using t1 r1 by blast
  have c4: "search_file example_env (example_searcher False) (ustr ''missing'') =
     ([], [OpenText (ustr ''missing''), Printed (error_line (ustr ''missing'') (ustr ''No such file or directory''))])"
    using t2 r2 by blast
  have c5: "search_file ?E' (example_searcher False) (ustr ''d/a.txt'') =
     search_file example_env (example_searcher False) (ustr ''d/a.txt'')"
    using t1 i by blast
  have p: "fst (process_file example_env (example_searcher False) (ustr ''d/e.log'')) =
        Inr (count_file (if batch example_env (example_searcher False) (ustr ''d/e.log'') \<noteq> []
              then merge_matches (example_searcher False) (ustr ''d/e.log'')
                     (batch example_env (example_searcher False) (ustr ''d/e.log''))
              else example_searcher False))"
    using t1 s by blast
  have c7: "files_processed (projr (fst (process_file example_env (example_searcher False) (ustr ''d/e.log'')))) = 1"
    unfolding p
    by (simp add: count_file_def merge_matches_def example_searcher_def FileSearcher_init_def)
  show ?thesis
    using r1 c2 [unfolded sc] r2 c4 c5 s c7 by (intro conjI)
qed

text \<open>
  C1 as stated fails: reading \<open>e.log\<close> raises after its first line, which holds the term;
  \<open>search_file\<close> returns that match, and the run stores it under the path.
\<close>

theorem scan_error_counterexample:
  "read_text example_env (ustr ''d/e.log'') = Lines [(ustr ''findme first\<newline>'')] (Some (ustr ''Input/output error'')) \<and>
   fst (search_file example_env (example_searcher False) (ustr ''d/e.log'')) =
     [\<lparr> line_num = 1, line = (ustr ''findme first''), file_path = (ustr ''d/e.log''), json_path = None \<rparr>] \<and>
   fst (search_file example_env (example_searcher False) (ustr ''d/e.log'')) \<noteq> [] \<and>
   search_directory example_env [0, 1, 0, 0, 1, 1, 2, 3, 3, 3] (example_searcher False) \<noteq> None \<and>
   results (searcher (the (search_directory example_env [0, 1, 0, 0, 1, 1, 2, 3, 3, 3]
                             (example_searcher False)))) (ustr ''d/e.log'') =
     Some [\<lparr> line_num = 1, line = (ustr ''findme first''), file_path = (ustr ''d/e.log''), json_path = None \<rparr>]"
  by (simp add: pool_simps world_simps Let_def)

subsection \<open>Line scanner\<close>

text \<open>
  C2 (amended). The line scan gives one record for each line that passes the configured
  test, in order, with the 1-based number of the line and the line without its trailing
  white space (\<open>line.rstrip()\<close>): nothing follows the text of the record in the line but
  white space, and the text does not end in white space. When the line ends in a newline
  preceded by a character that is not white space, exactly the newline is removed. These
  records are the first part of what \<open>search_file\<close> returns.
\<close>

theorem line_records_rstrip:
  "scan_lines E self fp 1 ls =
     map (\<lambda>(i, l). \<lparr> line_num = 1 + int i, line = rstrip l, file_path = fp, json_path = None \<rparr>)
         (filter (\<lambda>(i, l). term_in E self l) (enumerate 0 ls)) \<and>
   (read_text E fp = Lines ls err \<longrightarrow>
      prefix (scan_lines E self fp 1 ls) (fst (search_file E self fp))) \<and>
   (\<exists>ws. l = rstrip l @ ws \<and> list_all isspace ws) \<and>
   (rstrip l = [] \<or> \<not> isspace (last (rstrip l))) \<and>
   (\<not> isspace c \<longrightarrow> rstrip (s @ [c] @ (ustr ''\<newline>'')) = s @ [c])"
  using scan_lines_closed [of E self fp 1 0 ls] search_file_prefix [of E fp ls err self]
    rstrip_split [of l] rstrip_last [of l] rstrip_newline_only [of c s]
  by simp

theorem line_records_rstrip_witness:
  "read_text example_env (ustr ''d/a.txt'') =
     Lines [(ustr ''alpha\<newline>''), (ustr ''a findme  \<newline>''), (ustr ''omega\<newline>'')] None \<and>
   prefix (scan_lines example_env (example_searcher False) (ustr ''d/a.txt'') 1
             [(ustr ''alpha\<newline>''), (ustr ''a findme  \<newline>''), (ustr ''omega\<newline>'')])
          (fst (search_file example_env (example_searcher False) (ustr ''d/a.txt''))) \<and>
   scan_lines example_env (example_searcher False) (ustr ''d/a.txt'') 1
       [(ustr ''alpha\<newline>''), (ustr ''a findme  \<newline>''), (ustr ''omega\<newline>'')] =
     [\<lparr> line_num = 2, line = (ustr ''a findme''), file_path = (ustr ''d/a.txt''), json_path = None \<rparr>] \<and>
   rstrip (ustr ''a findme  \<newline>'') \<noteq> [] \<and>
   \<not> isspace (last (rstrip (ustr ''a findme  \<newline>''))) \<and>
   \<not> isspace 97 \<and>
   rstrip ((ustr ''omeg'') @ [97] @ (ustr ''\<newline>'')) = (ustr ''omeg'') @ [97]"
proof -
  note t = line_records_rstrip [where self = "example_searcher False" and fp = "(ustr ''d/a.txt'')"
      and ls = "[(ustr ''alpha\<newline>''), (ustr ''a findme  \<newline>''), (ustr ''omega\<newline>'')]"
      and E = example_env and err = None and l = "(ustr ''a findme  \<newline>'')"
      and c = "97" and s = "(ustr ''omeg'')"]
  have r: "read_text example_env (ustr ''d/a.txt'') =
     Lines [(ustr ''alpha\<newline>''), (ustr ''a findme  \<newline>''), (ustr ''omega\<newline>'')] None"
    by (simp add: example_env_def)
  have ne: "rstrip (ustr ''a findme  \<newline>'') \<noteq> []"
    by (simp add: rstrip_def isspace_def ustr_def)
  have ns: "\<not> isspace 97"
    by (simp add: isspace_def)
  have sc: "scan_lines example_env (example_searcher False) (ustr ''d/a.txt'') 1
       [(ustr ''alpha\<newline>''), (ustr ''a findme  \<newline>''), (ustr ''omega\<newline>'')] =
     [\<lparr> line_num = 2, line = (ustr ''a findme''), file_path = (ustr ''d/a.txt''), json_path = None \<rparr>]"
    by (simp add: world_simps)
  have c2: "prefix (scan_lines example_env (example_searcher False) (ustr ''d/a.txt'') 1
             [(ustr ''alpha\<newline>''), (ustr ''a findme  \<newline>''), (ustr ''omega\<newline>'')])
          (fst (search_file example_env (example_searcher False) (ustr ''d/a.txt'')))"
    using t r by blast
  have c5: "\<not> isspace (last (rstrip (ustr ''a findme  \<newline>'')))"
    using t ne by blast
  have c7: "rstrip ((ustr ''omeg'') @ [97] @ (ustr ''\<newline>'')) = (ustr ''omeg'') @ [97]"
    using t ns by blast
  show ?thesis
    using r c2 sc ne c5 ns c7 by (intro conjI)
qed

text \<open>
  C2 as stated fails: the second line of \<open>a.txt\<close> is \<open>a findme\<close>, two blanks and a
  newline; the record's text is \<open>a findme\<close>, without the two blanks.
\<close>

theorem line_text_counterexample:
  "read_text example_env (ustr ''d/a.txt'') =
     Lines [(ustr ''alpha\<newline>''), (ustr ''a findme  \<newline>''), (ustr ''omega\<newline>'')] None \<and>
   fst (search_file example_env (example_searcher False) (ustr ''d/a.txt'')) =
     [\<lparr> line_num = 2, line = (ustr ''a findme''), file_path = (ustr ''d/a.txt''), json_path = None \<rparr>] \<and>
   (ustr ''a findme'') \<noteq> (ustr ''a findme  '')"
  by (simp add: world_simps)

subsection \<open>The finished run\<close>

text \<open>
  C4. When \<open>search_directory\<close> has returned, on an object fresh from the constructor and
  under any interleaving, \<open>files_processed\<close> is the number of enumerated files for which
  \<open>is_searchable_file\<close> is true, and \<open>matches_found\<close> is the sum of the lengths of their
  batches. Files that fail classification add to neither counter.
\<close>

theorem aggregate_counters:
  assumes "search_directory E schedule (FileSearcher_init t d ex w exts cs) = Some P"
  shows "files_processed (searcher P) =
           int (length (filter (searchable E (FileSearcher_init t d ex w exts cs)) (walk E d))) \<and>
         matches_found (searcher P) =
           sum_list (map (\<lambda>f. int (length (batch E (FileSearcher_init t d ex w exts cs) f)))
                         (filter (searchable E (FileSearcher_init t d ex w exts cs)) (walk E d)))"
proof -
  let ?self0 = "FileSearcher_init t d ex w exts cs"
  have dir: "directory ?self0 = d" and z: "files_processed ?self0 = 0" "matches_found ?self0 = 0"
    by (simp_all add: FileSearcher_init_def)
  have "pool_inv E ?self0 (walk E d) P \<and> all_done P"
    using search_directory_inv [OF assms] dir by simp
  then show ?thesis
    using done_counters [of E ?self0 "walk E d" P] z by simp
qed

theorem aggregate_counters_witness:
  "search_directory example_env [0, 1, 0, 0, 1, 1, 2, 3, 3, 3] (example_searcher False) \<noteq> None \<and>
   files_processed (searcher (the (search_directory example_env [0, 1, 0, 0, 1, 1, 2, 3, 3, 3]
                                     (example_searcher False)))) = 3 \<and>
   matches_found (searcher (the (search_directory example_env [0, 1, 0, 0, 1, 1, 2, 3, 3, 3]
                                   (example_searcher False)))) = 4"
proof -
  let ?run = "search_directory example_env [0, 1, 0, 0, 1, 1, 2, 3, 3, 3] (example_searcher False)"
  have r: "?run \<noteq> None"
    by (simp add: pool_simps world_simps Let_def)
  then have P: "search_directory example_env [0, 1, 0, 0, 1, 1, 2, 3, 3, 3]
                  (FileSearcher_init (ustr ''findme'') (ustr ''d'') None 2 None False) = Some (the ?run)"
    by (simp add: example_searcher_def)
  have n: "int (length (filter (searchable example_env (FileSearcher_init (ustr ''findme'') (ustr ''d'') None 2 None False))
                          (walk example_env (ustr ''d'')))) = 3"
    by (simp add: searchable_def world_simps Let_def)
  have m: "sum_list (map (\<lambda>f. int (length (batch example_env (FileSearcher_init (ustr ''findme'') (ustr ''d'') None 2 None False) f)))
                 (filter (searchable example_env (FileSearcher_init (ustr ''findme'') (ustr ''d'') None 2 None False))
                    (walk example_env (ustr ''d'')))) = 4"
    by (simp add: searchable_def batch_def world_simps Let_def)
  from aggregate_counters [OF P] n m r show ?thesis
    by simp
qed

text \<open>
  C5. When \<open>search_directory\<close> has returned, a path is a key of \<open>results\<close> exactly when it
  was enumerated, passed classification and \<open>search_file\<close> returned at least one match
  for it; the value is that list. A searchable file without a match and a file that fails
  classification are no keys.
\<close>

theorem results_keys:
  assumes "search_directory E schedule (FileSearcher_init t d ex w exts cs) = Some P"
  shows "results (searcher P) f =
           (if f \<in> set (walk E d) \<and> searchable E (FileSearcher_init t d ex w exts cs) f \<and>
               batch E (FileSearcher_init t d ex w exts cs) f \<noteq> []
            then Some (batch E (FileSearcher_init t d ex w exts cs) f) else None) \<and>
         (f \<in> dom (results (searcher P))) =
           (f \<in> set (walk E d) \<and> searchable E (FileSearcher_init t d ex w exts cs) f \<and>
            batch E (FileSearcher_init t d ex w exts cs) f \<noteq> [])"
proof -
  let ?self0 = "FileSearcher_init t d ex w exts cs"
  have dir: "directory ?self0 = d" and e: "results ?self0 = Map.empty"
    by (simp_all add: FileSearcher_init_def)
  have "pool_inv E ?self0 (walk E d) P \<and> all_done P"
    using search_directory_inv [OF assms] dir by simp
  then have "results (searcher P) f =
           (if f \<in> set (walk E d) \<and> searchable E ?self0 f \<and> batch E ?self0 f \<noteq> []
            then Some (batch E ?self0 f) else None)"
    using done_results [of E ?self0 "walk E d" P f] e by simp
  then show ?thesis
    by (auto simp: dom_def)
qed

theorem results_keys_witness:
  "search_directory example_env [0, 1, 0, 0, 1, 1, 2, 3, 3, 3] (example_searcher False) \<noteq> None \<and>
   (ustr ''d/a.txt'') \<in> dom (results (searcher (the (search_directory example_env
                          [0, 1, 0, 0, 1, 1, 2, 3, 3, 3] (example_searcher False))))) \<and>
   (ustr ''d/data.bin'') \<notin> dom (results (searcher (the (search_directory example_env
                          [0, 1, 0, 0, 1, 1, 2, 3, 3, 3] (example_searcher False)))))"
proof -
  let ?run = "search_directory example_env [0, 1, 0, 0, 1, 1, 2, 3, 3, 3] (example_searcher False)"
  let ?self0 = "FileSearcher_init (ustr ''findme'') (ustr ''d'') None 2 None False"
  have r: "?run \<noteq> None"
    by (simp add: pool_simps world_simps Let_def)
  then have P: "search_directory example_env [0, 1, 0, 0, 1, 1, 2, 3, 3, 3] ?self0 = Some (the ?run)"
    by (simp add: example_searcher_def)
  have a: "(ustr ''d/a.txt'') \<in> set (walk example_env (ustr ''d'')) \<and> searchable example_env ?self0 (ustr ''d/a.txt'') \<and>
           batch example_env ?self0 (ustr ''d/a.txt'') \<noteq> []"
    by (simp add: searchable_def batch_def world_simps Let_def)
  have b: "\<not> searchable example_env ?self0 (ustr ''d/data.bin'')"
    by (simp add: searchable_def world_simps Let_def)
  have ka: "(ustr ''d/a.txt'') \<in> dom (results (searcher (the ?run)))"
    using results_keys [OF P, of "(ustr ''d/a.txt'')"] a by blast
  have kb: "(ustr ''d/data.bin'') \<notin> dom (results (searcher (the ?run)))"
    using results_keys [OF P, of "(ustr ''d/data.bin'')"] b by blast
  show ?thesis
    using r ka kb by (intro conjI)
qed

subsection \<open>Critical sections\<close>

lemma pool_after_inv: "pool_inv E self all_files (pool_after E self w all_files schedule)"
  unfolding pool_after_def by (rule pool_inv_run [OF pool_inv_submit])

text \<open>
  C3 (amended). \<open>process_file\<close> takes the lock twice. The first locked block stores a
  non-empty batch under the path and adds its length to \<open>matches_found\<close>; it leaves
  \<open>files_processed\<close> alone. The second locked block adds one to \<open>files_processed\<close> and
  leaves \<open>results\<close> and \<open>matches_found\<close> alone. So at every point of every interleaving,
  for distinct paths, \<open>matches_found\<close> is the total length of the lists in \<open>results\<close>, whose
  keys are enumerated paths, while \<open>files_processed\<close> is the number of calls that have
  returned for a path that passed classification: it may lag behind \<open>results\<close>.
\<close>

theorem two_critical_sections:
  assumes "distinct all_files"
  shows "matches_found (searcher (pool_after E (FileSearcher_init t d ex w exts cs) workers all_files schedule)) =
           sum_list (map (batch_size (searcher (pool_after E (FileSearcher_init t d ex w exts cs)
                                                   workers all_files schedule))) all_files) \<and>
         dom (results (searcher (pool_after E (FileSearcher_init t d ex w exts cs) workers all_files schedule)))
           \<subseteq> set all_files \<and>
         files_processed (searcher (pool_after E (FileSearcher_init t d ex w exts cs) workers all_files schedule)) =
           int (length (filter (\<lambda>(task, f). task = Finished \<and>
                                   searchable E (FileSearcher_init t d ex w exts cs) f)
                  (zip (tasks (pool_after E (FileSearcher_init t d ex w exts cs) workers all_files schedule))
                       all_files))) \<and>
         files_processed (fst (snd (process_file_step E fp (Scanned matches) self))) =
           files_processed self \<and>
         results (fst (snd (process_file_step E fp Merged self))) = results self \<and>
         matches_found (fst (snd (process_file_step E fp Merged self))) = matches_found self \<and>
         files_processed (fst (snd (process_file_step E fp Merged self))) = files_processed self + 1"
proof -
  let ?self0 = "FileSearcher_init t d ex w exts cs"
  let ?P = "pool_after E ?self0 workers all_files schedule"
  have e: "results ?self0 = Map.empty" and z: "files_processed ?self0 = 0" "matches_found ?self0 = 0"
    by (simp_all add: FileSearcher_init_def)
  note inv = pool_after_inv [of E ?self0 all_files workers schedule]
  have a: "matches_found (searcher ?P) = sum_list (map (batch_size (searcher ?P)) all_files)"
    using running_matches_found [OF inv assms e] z by simp
  have b: "dom (results (searcher ?P)) \<subseteq> set all_files"
    by (rule running_results_dom [OF inv e])
  have c: "files_processed (searcher ?P) =
           int (length (filter (\<lambda>(task, f). task = Finished \<and> searchable E ?self0 f)
                  (zip (tasks ?P) all_files)))"
    using running_files_processed [OF inv] z by simp
  have s: "files_processed (fst (snd (process_file_step E fp (Scanned matches) self))) =
           files_processed self"
    by (simp add: merge_matches_def)
  have m: "results (fst (snd (process_file_step E fp Merged self))) = results self"
    "matches_found (fst (snd (process_file_step E fp Merged self))) = matches_found self"
    "files_processed (fst (snd (process_file_step E fp Merged self))) = files_processed self + 1"
    by (simp_all add: count_file_def)
  show ?thesis
    using a b c s m by (intro conjI)
qed

lemma example_midway_eval:
  "tasks example_midway =
     [Merged,
      Scanned [\<lparr> line_num = 1, line = example_json_line, file_path = (ustr ''d/b.json''), json_path = None \<rparr>,
               \<lparr> line_num = 0, line = (ustr ''$.a.b: findme''), file_path = (ustr ''d/b.json''),
                 json_path = Some (ustr ''$.a.b'') \<rparr>],
      Pending, Pending]"
  "results (searcher example_midway) (ustr ''d/a.txt'') =
     Some [\<lparr> line_num = 2, line = (ustr ''a findme''), file_path = (ustr ''d/a.txt''), json_path = None \<rparr>]"
  "matches_found (searcher example_midway) = 1"
  "files_processed (searcher example_midway) = 0"
  by (simp_all add: example_midway_def pool_after_def pool_simps world_simps Let_def)

theorem two_critical_sections_witness:
  "distinct (walk example_env (ustr ''d'')) \<and>
   matches_found (searcher example_midway) = 1 \<and>
   sum_list (map (batch_size (searcher example_midway)) (walk example_env (ustr ''d''))) = 1 \<and>
   files_processed (searcher example_midway) = 0"
proof -
  have d: "distinct (walk example_env (ustr ''d''))"
    by (simp add: example_env_def)
  note t = two_critical_sections [OF d, where E = example_env and t = "(ustr ''findme'')" and d = "(ustr ''d'')"
      and ex = None and w = 2 and exts = None and cs = False and workers = 2
      and schedule = "[0, 1, 0]"]
  have "matches_found (searcher example_midway) =
          sum_list (map (batch_size (searcher example_midway)) (walk example_env (ustr ''d'')))"
    using t by (simp add: example_midway_def example_searcher_def)
  then show ?thesis
    using d example_midway_eval(3,4) by simp
qed

text \<open>
  C3 as stated fails: in the example, when the first call has left its first locked
  block, \<open>results\<close> holds the batch of \<open>a.txt\<close> and \<open>matches_found\<close> is 1, while
  \<open>files_processed\<close> is still 0.
\<close>

theorem one_scope_counterexample:
  "tasks example_midway ! 0 = Merged \<and>
   results (searcher example_midway) (ustr ''d/a.txt'') =
     Some [\<lparr> line_num = 2, line = (ustr ''a findme''), file_path = (ustr ''d/a.txt''), json_path = None \<rparr>] \<and>
   matches_found (searcher example_midway) = 1 \<and>
   files_processed (searcher example_midway) = 0"
  by (simp add: example_midway_eval)

subsection \<open>File classifier\<close>

text \<open>
  C8. \<open>is_searchable_file\<close> is true exactly when the path matches no exclusion pattern,
  the binary sniff finds no zero byte, and the lower-cased extension is in the extension
  list or that list is empty. \<open>process_file\<close> on a path that is not searchable opens no
  file for scanning and leaves the object as it is (or passes on the exception of
  \<open>re.search\<close>). In every interleaving, a path opened for scanning is an enumerated path
  that is searchable.
\<close>

theorem classifier_filters:
  "searchable E self fp =
     (is_excluded E self fp = Inr False \<and> \<not> is_binary_file E fp \<and>
      (file_extensions self = [] \<or> str_lower E (splitext_ext fp) \<in> set (file_extensions self))) \<and>
   (\<not> searchable E self fp \<longrightarrow>
      scanned_paths (snd (process_file E self fp)) = [] \<and>
      (fst (process_file E self fp) = Inr self \<or> isl (fst (process_file E self fp)))) \<and>
   (fp \<in> set (scanned_paths (trace (pool_after E self workers all_files schedule))) \<longrightarrow>
      fp \<in> set all_files \<and> searchable E self fp)"
proof -
  have a: "searchable E self fp =
     (is_excluded E self fp = Inr False \<and> \<not> is_binary_file E fp \<and>
      (file_extensions self = [] \<or> str_lower E (splitext_ext fp) \<in> set (file_extensions self)))"
    by (auto simp: searchable_def is_searchable_file_def Let_def split: sum.splits bool.splits)
  have b: "\<not> searchable E self fp \<longrightarrow>
      scanned_paths (snd (process_file E self fp)) = [] \<and>
      (fst (process_file E self fp) = Inr self \<or> isl (fst (process_file E self fp)))"
    using scanned_paths_classifier [of E self fp]
    by (auto simp: searchable_def process_file_def split: prod.splits sum.splits bool.splits)
  have c: "fp \<in> set (scanned_paths (trace (pool_after E self workers all_files schedule))) \<longrightarrow>
      fp \<in> set all_files \<and> searchable E self fp"
    using pool_after_inv [of E self all_files workers schedule]
    by (auto simp: pool_inv_def)
  show ?thesis
    using a b c by (intro conjI)
qed

theorem classifier_filters_witness:
  "\<not> searchable example_env (example_searcher False) (ustr ''d/data.bin'') \<and>
   py_in (ustr ''findme'') (hd (case read_text example_env (ustr ''d/data.bin'') of Lines ls err \<Rightarrow> ls | OpenFailed e \<Rightarrow> [])) \<and>
   scanned_paths (snd (process_file example_env (example_searcher False) (ustr ''d/data.bin''))) = [] \<and>
   fst (process_file example_env (example_searcher False) (ustr ''d/data.bin'')) = Inr (example_searcher False) \<and>
   (ustr ''d/a.txt'') \<in> set (scanned_paths (trace example_midway)) \<and>
   searchable example_env (example_searcher False) (ustr ''d/a.txt'')"
proof -
  note t1 = classifier_filters [where E = example_env and self = "example_searcher False"
      and fp = "(ustr ''d/data.bin'')"]
  note t2 = classifier_filters [where E = example_env and self = "example_searcher False"
      and fp = "(ustr ''d/a.txt'')" and workers = 2 and all_files = "walk example_env (ustr ''d'')"
      and schedule = "[0, 1, 0]"]
  have ext: "\<not> (is_excluded example_env (example_searcher False) (ustr ''d/data.bin'') = Inr False \<and>
      \<not> is_binary_file example_env (ustr ''d/data.bin'') \<and>
      (file_extensions (example_searcher False) = [] \<or>
       str_lower example_env (splitext_ext (ustr ''d/data.bin'')) \<in> set (file_extensions (example_searcher False))))"
    by (simp add: world_simps)
  have ns: "\<not> searchable example_env (example_searcher False) (ustr ''d/data.bin'')"
    using t1 ext by blast
  have tm: "py_in (ustr ''findme'') (hd (case read_text example_env (ustr ''d/data.bin'') of
                 Lines ls err \<Rightarrow> ls | OpenFailed e \<Rightarrow> []))"
    by (simp add: example_env_def ustr_def)
  have nl: "\<not> isl (fst (process_file example_env (example_searcher False) (ustr ''d/data.bin'')))"
    by (simp add: process_file_def world_simps)
  have c3: "scanned_paths (snd (process_file example_env (example_searcher False) (ustr ''d/data.bin''))) = []"
    using t1 ns by blast
  have c4: "fst (process_file example_env (example_searcher False) (ustr ''d/data.bin'')) =
              Inr (example_searcher False)"
    using t1 ns nl by blast
  have tr: "(ustr ''d/a.txt'') \<in> set (scanned_paths (trace example_midway))"
    by (simp add: example_midway_def pool_after_def pool_simps world_simps Let_def)
  have c6: "searchable example_env (example_searcher False) (ustr ''d/a.txt'')"
    using t2 tr unfolding example_midway_def by blast
  show ?thesis
    using ns tm c3 c4 tr c6 by (intro conjI)
qed

subsection \<open>Worker count\<close>







end
